theory Spec2Isabelle
  imports Main "HOL-Library.Word"
begin

section \<open>The Kafka-backed chain driver of orderer/kafka/orderer.go\<close>

subsection \<open>Data\<close>

text \<open>
  Go's \<open>int64\<close> and \<open>uint64\<close> are 64-bit words: \<open>+\<close> and \<open>-\<close> wrap around, as they do
  in Go. Comparison of words (\<open><\<close>, \<open>\<le>\<close>) is the unsigned one, which is what the loop
  uses for the \<open>uint64\<close> block numbers; \<open>sint\<close> reads an offset as a signed number.
\<close>

type_synonym int64 = "64 word"
type_synonym uint64 = "64 word"
type_synonym bytes = "8 word list"
type_synonym duration = "64 word"
type_synonym error = string

text \<open>A channel of \<open>struct{}\<close> that is only ever closed: it is open or closed.\<close>

datatype chan = Open | Closed

text \<open>The runtime panics the source can raise.\<close>

datatype panic =
    CloseOfClosedChannel
  | IndexOutOfRange
  | NilDereference
  | LedgerCorrupted

text \<open>\<open>close(c)\<close>: closing a closed channel panics.\<close>

fun close_chan :: "chan \<Rightarrow> panic + chan" where
  "close_chan Open = Inr Closed"
| "close_chan Closed = Inl CloseOfClosedChannel"

record ChainPartition =
  Topic :: string
  Partition :: "32 word"

text \<open>
  \<open>ab.KafkaMessage\<close>: the tagged union on the partition. \<open>KafkaMessage_nil\<close> is a message
  whose \<open>Type\<close> field is nil (nothing could be decoded, or the variant is not known), for
  which no case of the type switch of \<open>loop\<close> matches.
\<close>

datatype KafkaMessage =
    KafkaMessage_Connect
  | KafkaMessage_TimeToCut uint64
  | KafkaMessage_Regular bytes
  | KafkaMessage_nil

record KafkaMetadata =
  LastOffsetPersisted :: int64

text \<open>\<open>cb.Metadata\<close>; \<open>None\<close> is the nil slice.\<close>

record Metadata =
  Metadata_Value :: "bytes option"

text \<open>\<open>sarama.ConsumerMessage\<close>, the two fields the loop reads.\<close>

record ConsumerMessage =
  Value :: bytes
  Offset :: int64

record Envelope =
  Payload :: bytes
  Signature :: bytes

type_synonym batch = "Envelope list"
type_synonym Committer = nat
type_synonym Consumer = nat

text \<open>
  What the driver does to the outside, in the order it does it. \<open>Act_WriteBlock\<close> records,
  besides the three arguments of \<open>support.WriteBlock\<close>, the value of
  \<open>ch.lastCutBlock + 1\<close> at the moment of the call: the height of the block being written.
\<close>

datatype 'b action =
    Act_prodFunc
  | Act_Send ChainPartition bytes
  | Act_consFunc ChainPartition int64
  | Act_Cut
  | Act_Ordered Envelope
  | Act_CreateNextBlock batch
  | Act_WriteBlock uint64 'b "Committer list" bytes
  | Act_consumer_Close
  | Act_producer_Close
  | Act_set_halted
  | Act_close_exitChan
  | Act_close_haltedChan
  | Act_close_setupChan
  | Act_go_listenForErrors
  | Act_go_loop

text \<open>
  The collaborators injected into the driver, none of which is defined in orderer.go: the
  support (\<open>multichain.ConsenterSupport\<close>) with its block cutter, the producer, the consumer
  constructor, the protobuf codec and the constants of sarama and of this package. Their
  state is \<open>'w\<close> and blocks are \<open>'b\<close>; each call takes the state and returns the new one.
  An \<open>error option\<close> is Go's \<open>error\<close>, with \<open>None\<close> for nil. The broker list, the Kafka
  version, the retry options and the TLS configuration that the source passes to the
  constructors are fixed for a chain and belong to the collaborator; \<open>utils.MarshalOrPanic\<close>
  is taken to succeed on the messages the driver builds itself.
\<close>

record ('w, 'b) deps =
  ChainID :: string
  rawPartition :: "32 word"
  OffsetOldest :: int64
  Height :: "'w \<Rightarrow> uint64"
  BatchTimeout :: "'w \<Rightarrow> duration"
  prodFunc :: "'w \<Rightarrow> 'w"
  consFunc :: "'w \<Rightarrow> ChainPartition \<Rightarrow> int64 \<Rightarrow> (error + Consumer) \<times> 'w"
  producer_Send :: "'w \<Rightarrow> ChainPartition \<Rightarrow> bytes \<Rightarrow> error option \<times> 'w"
  producer_Close :: "'w \<Rightarrow> 'w"
  consumer_Close :: "'w \<Rightarrow> 'w"
  Cut :: "'w \<Rightarrow> (batch \<times> Committer list) \<times> 'w"
  Ordered :: "'w \<Rightarrow> Envelope \<Rightarrow> (batch list \<times> Committer list list \<times> bool) \<times> 'w"
  CreateNextBlock :: "'w \<Rightarrow> batch \<Rightarrow> 'b \<times> 'w"
  WriteBlock :: "'w \<Rightarrow> 'b \<Rightarrow> Committer list \<Rightarrow> bytes \<Rightarrow> 'w"
  Unmarshal_KafkaMessage :: "bytes \<Rightarrow> error option \<times> KafkaMessage"
  Unmarshal_Envelope :: "bytes \<Rightarrow> error + Envelope"
  Unmarshal_KafkaMetadata :: "bytes \<Rightarrow> error + KafkaMetadata"
  Marshal_KafkaMessage :: "KafkaMessage \<Rightarrow> bytes"
  Marshal_KafkaMetadata :: "KafkaMetadata \<Rightarrow> bytes"
  Marshal_Envelope :: "Envelope \<Rightarrow> bytes"

text \<open>
  \<open>chainImpl\<close>. The three channels are kept by their state, \<open>consumer\<close> is nil (\<open>None\<close>)
  until \<open>Start\<close> assigns it, \<open>world\<close> is the state of the collaborators the driver holds
  handles to (support, producer, consumer) and \<open>trace\<close> the actions taken so far.
\<close>

record ('w, 'b) chainImpl =
  partition :: ChainPartition
  batchTimeout :: duration
  lastOffsetPersisted :: int64
  lastCutBlock :: uint64
  consumer :: "Consumer option"
  halted :: bool
  exitChan :: chan
  haltedChan :: chan
  setupChan :: chan
  world :: 'w
  trace :: "'b action list"

definition act :: "'b action list \<Rightarrow> ('w, 'b) chainImpl \<Rightarrow> ('w, 'b) chainImpl" where
  "act as ch = ch\<lparr>trace := trace ch @ as\<rparr>"

subsection \<open>Construction: \<open>getLastOffsetPersisted\<close>, \<open>newChain\<close>, \<open>HandleChain\<close>\<close>

text \<open>
  \<open>getLastOffsetPersisted\<close> (lines 86-97). \<open>logger.Panicf\<close> logs and panics, so the function
  does not return when the value cannot be unmarshalled. The pointer \<open>metadata\<close> itself is
  taken to be non-nil.
\<close>

definition getLastOffsetPersisted :: "('w, 'b) deps \<Rightarrow> Metadata \<Rightarrow> panic + int64" where
  "getLastOffsetPersisted d metadata =
     (case Metadata_Value metadata of
        Some v \<Rightarrow>
          (case Unmarshal_KafkaMetadata d v of
             Inl err \<Rightarrow> Inl LedgerCorrupted
           | Inr kafkaMetadata \<Rightarrow> Inr (LastOffsetPersisted kafkaMetadata))
      | None \<Rightarrow> Inr (OffsetOldest d - 1))"

text \<open>
  Modelled from the spec: \<open>newChainPartition\<close> is defined in another file of the package;
  the topic is the channel identifier and the partition number is the fixed one.
\<close>

definition newChainPartition :: "string \<Rightarrow> 32 word \<Rightarrow> ChainPartition" where
  "newChainPartition chainID p = \<lparr>Topic = chainID, Partition = p\<rparr>"

text \<open>\<open>newChain\<close> (lines 107-124); \<open>w\<close> is the state of the collaborators at the call.\<close>

definition newChain :: "('w, 'b) deps \<Rightarrow> 'w \<Rightarrow> int64 \<Rightarrow> ('w, 'b) chainImpl" where
  "newChain d w lastOffsetPersisted' =
     (let lastCutBlock' = Height d w - 1
      in \<lparr>partition = newChainPartition (ChainID d) (rawPartition d),
          batchTimeout = BatchTimeout d w,
          lastOffsetPersisted = lastOffsetPersisted',
          lastCutBlock = lastCutBlock',
          consumer = None,
          halted = False,
          exitChan = Open,
          haltedChan = Open,
          setupChan = Open,
          world = prodFunc d w,
          trace = [Act_prodFunc]\<rparr>)"

text \<open>\<open>HandleChain\<close> (lines 82-84).\<close>

definition HandleChain :: "('w, 'b) deps \<Rightarrow> 'w \<Rightarrow> Metadata \<Rightarrow> panic + ('w, 'b) chainImpl" where
  "HandleChain d w metadata =
     (case getLastOffsetPersisted d metadata of
        Inl p \<Rightarrow> Inl p
      | Inr off \<Rightarrow> Inr (newChain d w off))"

subsection \<open>\<open>Start\<close>, \<open>Halt\<close>, \<open>Enqueue\<close>\<close>

text \<open>
  \<open>Start\<close> (lines 167-193). The result says whether the two goroutines were spawned.
  \<open>close(ch.exitChan)\<close> and \<open>close(ch.setupChan)\<close> panic on a closed channel.
\<close>

definition Start_abort :: "('w, 'b) chainImpl \<Rightarrow> panic + ('w, 'b) chainImpl \<times> bool" where
  "Start_abort ch =
     (case close_chan (exitChan ch) of
        Inl p \<Rightarrow> Inl p
      | Inr c \<Rightarrow> Inr (act [Act_close_exitChan, Act_set_halted] (ch\<lparr>exitChan := c, halted := True\<rparr>), False))"

definition Start :: "('w, 'b) deps \<Rightarrow> ('w, 'b) chainImpl \<Rightarrow> panic + ('w, 'b) chainImpl \<times> bool" where
  "Start d ch =
     (let connect = Marshal_KafkaMessage d KafkaMessage_Connect;
          (err, w1) = producer_Send d (world ch) (partition ch) connect;
          ch1 = act [Act_Send (partition ch) connect] (ch\<lparr>world := w1\<rparr>)
      in if err \<noteq> None then Start_abort ch1
         else
           (let (res, w2) = consFunc d w1 (partition ch1) (lastOffsetPersisted ch1 + 1);
                ch2 = act [Act_consFunc (partition ch1) (lastOffsetPersisted ch1 + 1)] (ch1\<lparr>world := w2\<rparr>)
            in case res of
                 Inl err \<Rightarrow> Start_abort ch2
               | Inr consumer' \<Rightarrow>
                   (case close_chan (setupChan ch2) of
                      Inl p \<Rightarrow> Inl p
                    | Inr c \<Rightarrow>
                        Inr (act [Act_close_setupChan, Act_go_listenForErrors, Act_go_loop]
                               (ch2\<lparr>consumer := Some consumer', setupChan := c\<rparr>), True))))"

text \<open>
  \<open>Halt\<close> (lines 206-217). The select with a default case (line 207) and the close
  (line 215) are two statements, and nothing in the source makes the pair atomic:
  \<open>between\<close> is what other goroutines do to the chain after this call has found the
  channel open and before it closes it. \<open>Halt Inr\<close> is a call that nothing overlaps.
\<close>

definition Halt ::
  "(('w, 'b) chainImpl \<Rightarrow> panic + ('w, 'b) chainImpl) \<Rightarrow> ('w, 'b) chainImpl \<Rightarrow> panic + ('w, 'b) chainImpl" where
  "Halt between ch =
     (case exitChan ch of
        Closed \<Rightarrow> Inr ch
      | Open \<Rightarrow>
          (case between ch of
             Inl p \<Rightarrow> Inl p
           | Inr ch1 \<Rightarrow>
               (case close_chan (exitChan ch1) of
                  Inl p \<Rightarrow> Inl p
                | Inr c \<Rightarrow> Inr (act [Act_close_exitChan] (ch1\<lparr>exitChan := c\<rparr>)))))"

text \<open>\<open>n\<close> calls of \<open>Halt\<close>, one after the other, stopping at a panic.\<close>

fun Halt_times :: "nat \<Rightarrow> ('w, 'b) chainImpl \<Rightarrow> panic + ('w, 'b) chainImpl" where
  "Halt_times 0 ch = Inr ch"
| "Halt_times (Suc n) ch =
     (case Halt Inr ch of
        Inl p \<Rightarrow> Inl p
      | Inr ch1 \<Rightarrow> Halt_times n ch1)"

text \<open>
  \<open>Enqueue\<close> (lines 222-235). \<open>ch.halted\<close> is read twice, before and after the publish;
  \<open>during\<close> is what other goroutines (the event loop, on its way out) do to the chain
  while \<open>Send\<close> blocks.
\<close>

definition Enqueue ::
  "('w, 'b) deps \<Rightarrow> (('w, 'b) chainImpl \<Rightarrow> ('w, 'b) chainImpl) \<Rightarrow> ('w, 'b) chainImpl \<Rightarrow> Envelope
     \<Rightarrow> bool \<times> ('w, 'b) chainImpl" where
  "Enqueue d during ch env =
     (if halted ch then (False, ch)
      else
        (let m = Marshal_KafkaMessage d (KafkaMessage_Regular (Marshal_Envelope d env));
             (err, w1) = producer_Send d (world ch) (partition ch) m;
             ch1 = during (act [Act_Send (partition ch) m] (ch\<lparr>world := w1\<rparr>))
         in if err \<noteq> None then (False, ch1)
            else (\<not> halted ch1, ch1)))"

subsection \<open>The event loop\<close>

text \<open>
  One iteration of the select of \<open>loop\<close> (lines 248-324) takes one of three events. A
  receive from the nil \<open>timer\<close> channel blocks for ever and one from an open \<open>exitChan\<close>
  too, so these two events can be taken only when \<open>enabled\<close>.
\<close>

datatype event = Recv ConsumerMessage | TimerFired | ExitSignal

fun enabled :: "('w, 'b) chainImpl \<times> duration option \<Rightarrow> event \<Rightarrow> bool" where
  "enabled (ch, timer) (Recv in') = True"
| "enabled (ch, timer) TimerFired = (timer \<noteq> None)"
| "enabled (ch, timer) ExitSignal = (exitChan ch = Closed)"

datatype outcome = Continue | Return | Panic panic

text \<open>
  Lines 273-276 and 303-306: create the block, write it with the offset of the consumed
  message as its metadata, count it.
\<close>

definition cut_block ::
  "('w, 'b) deps \<Rightarrow> ('w, 'b) chainImpl \<Rightarrow> batch \<Rightarrow> Committer list \<Rightarrow> int64 \<Rightarrow> ('w, 'b) chainImpl" where
  "cut_block d ch batch' committers off =
     (let (block, w1) = CreateNextBlock d (world ch) batch';
          encodedLastOffsetPersisted = Marshal_KafkaMetadata d \<lparr>LastOffsetPersisted = off\<rparr>;
          w2 = WriteBlock d w1 block committers encodedLastOffsetPersisted
      in ch\<lparr>world := w2,
            trace := trace ch @ [Act_CreateNextBlock batch',
                                 Act_WriteBlock (lastCutBlock ch + 1) block committers encodedLastOffsetPersisted],
            lastCutBlock := lastCutBlock ch + 1\<rparr>)"

text \<open>
  The range loop of lines 302-308, at index \<open>i\<close>. \<open>committers[i]\<close> is evaluated after
  \<open>CreateNextBlock\<close> has been called and panics when out of range.
\<close>

fun write_batches ::
  "('w, 'b) deps \<Rightarrow> ('w, 'b) chainImpl \<Rightarrow> int64 \<Rightarrow> Committer list list \<Rightarrow> nat \<Rightarrow> batch list
     \<Rightarrow> outcome \<times> ('w, 'b) chainImpl" where
  "write_batches d ch off committers i [] = (Continue, ch)"
| "write_batches d ch off committers i (batch' # batches) =
     (if i < length committers
      then write_batches d (cut_block d ch batch' (committers ! i) off) off committers (Suc i) batches
      else (Panic IndexOutOfRange,
            ch\<lparr>world := snd (CreateNextBlock d (world ch) batch'),
               trace := trace ch @ [Act_CreateNextBlock batch']\<rparr>))"

text \<open>
  The body of the loop for one event (lines 249-323). When \<open>proto.Unmarshal\<close> fails on
  the consumed bytes (line 251) the loop logs and goes on to the type switch all the same,
  with what \<open>Unmarshal\<close> left in \<open>msg\<close>: the second component of
  \<open>Unmarshal_KafkaMessage\<close>. (\<open>Unmarshal\<close> resets the message before it decodes, so
  that nothing of an earlier iteration is left in it.) The locals \<open>ttcNumber\<close> and
  \<open>encodedLastOffsetPersisted\<close> are assigned before they are read in each iteration, which
  leaves \<open>timer\<close> as the only local that lives from one iteration to the next.
\<close>

definition loop_body ::
  "('w, 'b) deps \<Rightarrow> ('w, 'b) chainImpl \<times> duration option \<Rightarrow> event
     \<Rightarrow> outcome \<times> ('w, 'b) chainImpl \<times> duration option" where
  "loop_body d st ev =
     (let (ch, timer) = st in
      case ev of
        Recv in' \<Rightarrow>
          (case snd (Unmarshal_KafkaMessage d (Value in')) of
             KafkaMessage_Connect \<Rightarrow> (Continue, ch, timer)
           | KafkaMessage_TimeToCut ttcNumber \<Rightarrow>
               if ttcNumber = lastCutBlock ch + 1 then
                 (let ((batch', committers), w1) = Cut d (world ch);
                      ch1 = act [Act_Cut] (ch\<lparr>world := w1\<rparr>)
                  in if length batch' = 0 then (Return, ch1, None)
                     else (Continue, cut_block d ch1 batch' committers (Offset in'), None))
               else if ttcNumber > lastCutBlock ch + 1 then (Return, ch, timer)
               else (Continue, ch, timer)
           | KafkaMessage_Regular payload \<Rightarrow>
               (case Unmarshal_Envelope d payload of
                  Inl err \<Rightarrow> (Continue, ch, timer)
                | Inr env \<Rightarrow>
                    (let ((batches, committers, ok), w1) = Ordered d (world ch) env;
                         ch1 = act [Act_Ordered env] (ch\<lparr>world := w1\<rparr>)
                     in if ok \<and> length batches = 0 \<and> timer = None
                        then (Continue, ch1, Some (batchTimeout ch1))
                        else
                          (case write_batches d ch1 (Offset in') committers 0 batches of
                             (Continue, ch2) \<Rightarrow>
                               (Continue, ch2, if length batches > 0 then None else timer)
                           | (out, ch2) \<Rightarrow> (out, ch2, timer))))
           | KafkaMessage_nil \<Rightarrow> (Continue, ch, timer))
      | TimerFired \<Rightarrow>
          (let m = Marshal_KafkaMessage d (KafkaMessage_TimeToCut (lastCutBlock ch + 1));
               (err, w1) = producer_Send d (world ch) (partition ch) m
           in (Continue, act [Act_Send (partition ch) m] (ch\<lparr>world := w1\<rparr>), None))
      | ExitSignal \<Rightarrow> (Return, ch, timer))"

text \<open>
  The deferred calls of lines 243-246 run last-registered first when \<open>loop\<close> returns or
  panics: \<open>ch.consumer.Close()\<close>, \<open>ch.halted = true\<close>, \<open>ch.producer.Close()\<close>,
  \<open>close(ch.haltedChan)\<close>.
\<close>

definition loop_deferred :: "('w, 'b) deps \<Rightarrow> ('w, 'b) chainImpl \<Rightarrow> panic + ('w, 'b) chainImpl" where
  "loop_deferred d ch =
     (let ch1 = act [Act_consumer_Close] (ch\<lparr>world := consumer_Close d (world ch)\<rparr>);
          ch2 = act [Act_set_halted] (ch1\<lparr>halted := True\<rparr>);
          ch3 = act [Act_producer_Close] (ch2\<lparr>world := producer_Close d (world ch2)\<rparr>)
      in case close_chan (haltedChan ch3) of
           Inl p \<Rightarrow> Inl p
         | Inr c \<Rightarrow> Inr (act [Act_close_haltedChan] (ch3\<lparr>haltedChan := c\<rparr>)))"

text \<open>
  The result of the loop on a finite schedule of events: still \<open>Running\<close>, blocked in the
  select, when the events are used up; \<open>Exited\<close> after a return; \<open>Panicked\<close> after a panic
  of the body or of the deferred close. In the last two the deferred calls have run.
\<close>

datatype ('w, 'b) loop_result =
    Running "('w, 'b) chainImpl" "duration option"
  | Exited "('w, 'b) chainImpl"
  | Panicked panic "('w, 'b) chainImpl"

definition loop_exit ::
  "('w, 'b) deps \<Rightarrow> panic option \<Rightarrow> ('w, 'b) chainImpl \<Rightarrow> ('w, 'b) loop_result" where
  "loop_exit d raised ch =
     (case loop_deferred d ch of
        Inl p \<Rightarrow> Panicked p (act [Act_consumer_Close, Act_set_halted, Act_producer_Close]
                               (ch\<lparr>world := producer_Close d (consumer_Close d (world ch)), halted := True\<rparr>))
      | Inr ch1 \<Rightarrow> (case raised of None \<Rightarrow> Exited ch1 | Some p \<Rightarrow> Panicked p ch1))"

fun loop_from ::
  "('w, 'b) deps \<Rightarrow> ('w, 'b) chainImpl \<times> duration option \<Rightarrow> event list \<Rightarrow> ('w, 'b) loop_result" where
  "loop_from d st [] = Running (fst st) (snd st)"
| "loop_from d st (ev # evs) =
     (if \<not> enabled st ev then loop_from d st evs
      else
        (case loop_body d st ev of
           (Continue, st1) \<Rightarrow> loop_from d st1 evs
         | (Return, ch1, timer1) \<Rightarrow> loop_exit d None ch1
         | (Panic p, ch1, timer1) \<Rightarrow> loop_exit d (Some p) ch1))"

text \<open>
  \<open>loop\<close> (lines 237-325): the timer starts nil. \<open>defer ch.consumer.Close()\<close> evaluates
  the method value at once, which panics on a nil consumer; the three calls deferred
  before it then run.
\<close>

definition loop :: "('w, 'b) deps \<Rightarrow> ('w, 'b) chainImpl \<Rightarrow> event list \<Rightarrow> ('w, 'b) loop_result" where
  "loop d ch evs =
     (case consumer ch of
        None \<Rightarrow>
          Panicked NilDereference
            (let ch2 = act [Act_set_halted] (ch\<lparr>halted := True\<rparr>);
                 ch3 = act [Act_producer_Close] (ch2\<lparr>world := producer_Close d (world ch2)\<rparr>)
             in case close_chan (haltedChan ch3) of
                  Inl p \<Rightarrow> ch3
                | Inr c \<Rightarrow> act [Act_close_haltedChan] (ch3\<lparr>haltedChan := c\<rparr>))
      | Some c \<Rightarrow> loop_from d (ch, None) evs)"

fun result_chain :: "('w, 'b) loop_result \<Rightarrow> ('w, 'b) chainImpl" where
  "result_chain (Running ch timer) = ch"
| "result_chain (Exited ch) = ch"
| "result_chain (Panicked p ch) = ch"

text \<open>The chain driver from its start: \<open>Start\<close>, and the loop when \<open>Start\<close> spawned it.\<close>

definition run :: "('w, 'b) deps \<Rightarrow> ('w, 'b) chainImpl \<Rightarrow> event list \<Rightarrow> panic + ('w, 'b) loop_result" where
  "run d ch evs =
     (case Start d ch of
        Inl p \<Rightarrow> Inl p
      | Inr (ch1, spawned) \<Rightarrow> Inr (if spawned then loop d ch1 evs else Exited ch1))"

subsection \<open>Reading a trace\<close>

text \<open>The actions a chain \<open>ch'\<close> has taken since it was \<open>ch\<close>.\<close>

definition new_actions :: "('w, 'b) chainImpl \<Rightarrow> ('w, 'b) chainImpl \<Rightarrow> 'b action list" where
  "new_actions ch ch' = drop (length (trace ch)) (trace ch')"

text \<open>The heights of the blocks written, and the metadata written with them.\<close>

fun written_heights :: "'b action list \<Rightarrow> uint64 list" where
  "written_heights [] = []"
| "written_heights (Act_WriteBlock h b c m # as) = h # written_heights as"
| "written_heights (a # as) = written_heights as"

fun written_metadata :: "'b action list \<Rightarrow> bytes list" where
  "written_metadata [] = []"
| "written_metadata (Act_WriteBlock h b c m # as) = m # written_metadata as"
| "written_metadata (a # as) = written_metadata as"

text \<open>The starting offsets of the consumers constructed.\<close>

fun consFunc_offsets :: "'b action list \<Rightarrow> int64 list" where
  "consFunc_offsets [] = []"
| "consFunc_offsets (Act_consFunc p off # as) = off # consFunc_offsets as"
| "consFunc_offsets (a # as) = consFunc_offsets as"

text \<open>The four deferred actions of \<open>loop\<close>, as they occur in a trace.\<close>

fun is_cleanup :: "'b action \<Rightarrow> bool" where
  "is_cleanup Act_consumer_Close = True"
| "is_cleanup Act_producer_Close = True"
| "is_cleanup Act_set_halted = True"
| "is_cleanup Act_close_haltedChan = True"
| "is_cleanup a = False"

definition cleanup_actions :: "'b action list \<Rightarrow> 'b action list" where
  "cleanup_actions as = filter is_cleanup as"

text \<open>The \<open>k\<close> heights that follow \<open>a\<close>: \<open>a + 1\<close>, \<open>a + 2\<close>, ..., in \<open>uint64\<close>.\<close>

definition heights_from :: "uint64 \<Rightarrow> nat \<Rightarrow> uint64 list" where
  "heights_from a k = map (\<lambda>i. a + 1 + of_nat i) [0..<k]"

subsection \<open>A small instance of the collaborators\<close>

text \<open>
  A codec with one tag byte, a block cutter that cuts at two envelopes, a producer and a
  consumer constructor that succeed, and a ledger of height \<open>h\<close>. The state of the
  collaborators is the list of pending envelopes; a block is its batch.
\<close>

definition ex_Unmarshal_KafkaMessage :: "bytes \<Rightarrow> error option \<times> KafkaMessage" where
  "ex_Unmarshal_KafkaMessage bs =
     (case bs of
        [] \<Rightarrow> (Some ''empty'', KafkaMessage_nil)
      | t # rest \<Rightarrow>
          if t = 0 then (None, KafkaMessage_Connect)
          else if t = 1 then
            (case rest of
               [n] \<Rightarrow> (None, KafkaMessage_TimeToCut (ucast n))
             | _ \<Rightarrow> (Some ''truncated'', KafkaMessage_nil))
          else if t = 2 then (None, KafkaMessage_Regular rest)
          else (Some ''unknown'', KafkaMessage_nil))"

definition ex_Marshal_KafkaMessage :: "KafkaMessage \<Rightarrow> bytes" where
  "ex_Marshal_KafkaMessage m =
     (case m of
        KafkaMessage_Connect \<Rightarrow> [0]
      | KafkaMessage_TimeToCut n \<Rightarrow> [1, ucast n]
      | KafkaMessage_Regular p \<Rightarrow> 2 # p
      | KafkaMessage_nil \<Rightarrow> [])"

definition ex_Unmarshal_KafkaMetadata :: "bytes \<Rightarrow> error + KafkaMetadata" where
  "ex_Unmarshal_KafkaMetadata bs =
     (case bs of
        [b] \<Rightarrow> Inr \<lparr>LastOffsetPersisted = ucast b\<rparr>
      | _ \<Rightarrow> Inl ''malformed'')"

definition ex_Ordered ::
  "Envelope list \<Rightarrow> Envelope \<Rightarrow> (batch list \<times> Committer list list \<times> bool) \<times> Envelope list" where
  "ex_Ordered w env =
     (if 1 \<le> length w then (([w @ [env]], [[7]], True), [])
      else (([], [], True), w @ [env]))"

definition ex_deps :: "uint64 \<Rightarrow> (Envelope list, batch) deps" where
  "ex_deps h =
     \<lparr>ChainID = ''testchainid'',
      rawPartition = 0,
      OffsetOldest = - 2,
      Height = (\<lambda>w. h),
      BatchTimeout = (\<lambda>w. 1000),
      prodFunc = (\<lambda>w. w),
      consFunc = (\<lambda>w p off. (Inr 0, w)),
      producer_Send = (\<lambda>w p m. (None, w)),
      producer_Close = (\<lambda>w. w),
      consumer_Close = (\<lambda>w. w),
      Cut = (\<lambda>w. ((w, [7]), [])),
      Ordered = ex_Ordered,
      CreateNextBlock = (\<lambda>w b. (b, w)),
      WriteBlock = (\<lambda>w b c m. w),
      Unmarshal_KafkaMessage = ex_Unmarshal_KafkaMessage,
      Unmarshal_Envelope = (\<lambda>bs. Inr \<lparr>Payload = bs, Signature = []\<rparr>),
      Unmarshal_KafkaMetadata = ex_Unmarshal_KafkaMetadata,
      Marshal_KafkaMessage = ex_Marshal_KafkaMessage,
      Marshal_KafkaMetadata = (\<lambda>km. [ucast (LastOffsetPersisted km)]),
      Marshal_Envelope = Payload\<rparr>"

text \<open>The same with a producer whose every publish fails.\<close>

definition ex_deps_down :: "uint64 \<Rightarrow> (Envelope list, batch) deps" where
  "ex_deps_down h = (ex_deps h)\<lparr>producer_Send := (\<lambda>w p m. (Some ''broker down'', w))\<rparr>"

text \<open>
  The same with a consumer constructor whose result tells the offset it was given: the
  consumer it returns is that offset, and it leaves an envelope holding it with the
  collaborators.
\<close>

definition ex_deps_seek :: "uint64 \<Rightarrow> (Envelope list, batch) deps" where
  "ex_deps_seek h =
     (ex_deps h)\<lparr>consFunc := (\<lambda>w p off. (Inr (unat off), w @ [\<lparr>Payload = [ucast off], Signature = []\<rparr>]))\<rparr>"

text \<open>A consumed message with the given bytes at the given offset.\<close>

definition ex_msg :: "bytes \<Rightarrow> int64 \<Rightarrow> ConsumerMessage" where
  "ex_msg bs off = \<lparr>Value = bs, Offset = off\<rparr>"

subsection \<open>Two relations between a chain and a later one\<close>

text \<open>
  \<open>counts ch ch'\<close>: the trace has grown, the blocks written since \<open>ch\<close> have the
  heights that follow \<open>lastCutBlock ch\<close>, the counter has grown by their number and the
  persisted offset is the same.
\<close>

definition counts :: "('w, 'b) chainImpl \<Rightarrow> ('w, 'b) chainImpl \<Rightarrow> bool" where
  "counts ch ch' \<longleftrightarrow>
     (\<exists>as. trace ch' = trace ch @ as
        \<and> written_heights as = heights_from (lastCutBlock ch) (length (written_heights as))
        \<and> lastCutBlock ch' = lastCutBlock ch + of_nat (length (written_heights as)))
     \<and> lastOffsetPersisted ch' = lastOffsetPersisted ch"

text \<open>
  \<open>advances ch ch'\<close>: what the body of the loop does to the chain, which is the above with
  no deferred action taken and nothing else changed but \<open>world\<close>.
\<close>

definition advances :: "('w, 'b) chainImpl \<Rightarrow> ('w, 'b) chainImpl \<Rightarrow> bool" where
  "advances ch ch' \<longleftrightarrow>
     (\<exists>as. trace ch' = trace ch @ as
        \<and> written_heights as = heights_from (lastCutBlock ch) (length (written_heights as))
        \<and> lastCutBlock ch' = lastCutBlock ch + of_nat (length (written_heights as))
        \<and> cleanup_actions as = [])
     \<and> lastOffsetPersisted ch' = lastOffsetPersisted ch
     \<and> consumer ch' = consumer ch
     \<and> halted ch' = halted ch
     \<and> exitChan ch' = exitChan ch
     \<and> haltedChan ch' = haltedChan ch
     \<and> setupChan ch' = setupChan ch
     \<and> partition ch' = partition ch
     \<and> batchTimeout ch' = batchTimeout ch"

text \<open>
  \<open>stamps m ch ch'\<close>: every block written since \<open>ch\<close> carries the metadata \<open>m\<close>.
\<close>

definition stamps :: "bytes \<Rightarrow> ('w, 'b) chainImpl \<Rightarrow> ('w, 'b) chainImpl \<Rightarrow> bool" where
  "stamps m ch ch' \<longleftrightarrow> (\<exists>as. trace ch' = trace ch @ as \<and> set (written_metadata as) \<subseteq> {m})"

text \<open>The chain of the small instance once started, and once halted after that.\<close>

definition ex_running :: "uint64 \<Rightarrow> (Envelope list, batch) chainImpl" where
  "ex_running h = fst (projr (Start (ex_deps h) (newChain (ex_deps h) [] (- 3))))"

definition ex_halted :: "uint64 \<Rightarrow> (Envelope list, batch) chainImpl" where
  "ex_halted h = projr (Halt Inr (ex_running h))"

section \<open>Properties\<close>

subsection \<open>Traces and heights\<close>

lemma heights_from_0: "heights_from a 0 = []"
  by (simp add: heights_from_def)

lemma heights_from_add:
  "heights_from a (k1 + k2) = heights_from a k1 @ heights_from (a + of_nat k1) k2"
proof -
  have a: "[0..<k1 + k2] = [0..<k1] @ [k1..<k1 + k2]"
    by (rule upt_add_eq_append) simp
  have "map (\<lambda>i. i + k1) [0..<k2] = [k1..<k2 + k1]"
    by (rule map_add_upt)
  then have b: "[k1..<k1 + k2] = map (\<lambda>i. i + k1) [0..<k2]"
    by (simp only: add.commute)
  have c: "a + 1 + of_nat (i + k1) = a + of_nat k1 + 1 + of_nat i" for i
    by (simp only: of_nat_add add.assoc add.commute add.left_commute)
  show ?thesis
    unfolding heights_from_def a b map_append map_map comp_def c ..
qed

lemma heights_from_1: "heights_from a (Suc 0) = [a + 1]"
  by (simp add: heights_from_def)

lemma written_heights_append:
  "written_heights (as @ bs) = written_heights as @ written_heights bs"
  by (induction as rule: written_heights.induct) simp_all

lemma written_metadata_append:
  "written_metadata (as @ bs) = written_metadata as @ written_metadata bs"
  by (induction as rule: written_metadata.induct) simp_all

lemma consFunc_offsets_append:
  "consFunc_offsets (as @ bs) = consFunc_offsets as @ consFunc_offsets bs"
  by (induction as rule: consFunc_offsets.induct) simp_all

lemma cleanup_actions_append:
  "cleanup_actions (as @ bs) = cleanup_actions as @ cleanup_actions bs"
  by (simp add: cleanup_actions_def)

lemma advances_refl: "advances ch ch"
  by (simp add: advances_def heights_from_0 cleanup_actions_def)

lemma advances_trans:
  assumes "advances a b" and "advances b c"
  shows "advances a c"
proof -
  from assms(1) obtain as where as:
    "trace b = trace a @ as"
    "written_heights as = heights_from (lastCutBlock a) (length (written_heights as))"
    "lastCutBlock b = lastCutBlock a + of_nat (length (written_heights as))"
    "cleanup_actions as = []"
    by (auto simp: advances_def)
  from assms(2) obtain bs where bs:
    "trace c = trace b @ bs"
    "written_heights bs = heights_from (lastCutBlock b) (length (written_heights bs))"
    "lastCutBlock c = lastCutBlock b + of_nat (length (written_heights bs))"
    "cleanup_actions bs = []"
    by (auto simp: advances_def)
  let ?k1 = "length (written_heights as)" and ?k2 = "length (written_heights bs)"
  have 1: "trace c = trace a @ (as @ bs)"
    using as(1) bs(1) by simp
  have 2: "written_heights (as @ bs) = heights_from (lastCutBlock a) (length (written_heights (as @ bs)))"
    using as(2) bs(2) as(3) by (simp add: written_heights_append heights_from_add)
  have 3: "lastCutBlock c = lastCutBlock a + of_nat (length (written_heights (as @ bs)))"
    using as(3) bs(3) by (simp add: written_heights_append)
  have 4: "cleanup_actions (as @ bs) = []"
    using as(4) bs(4) by (simp add: cleanup_actions_append)
  have rest: "lastOffsetPersisted c = lastOffsetPersisted a" "consumer c = consumer a"
    "halted c = halted a" "exitChan c = exitChan a" "haltedChan c = haltedChan a"
    "setupChan c = setupChan a" "partition c = partition a" "batchTimeout c = batchTimeout a"
    using assms by (simp_all add: advances_def)
  show ?thesis
    unfolding advances_def using 1 2 3 4 rest by blast
qed

lemma advances_quiet:
  assumes "written_heights as = []" and "cleanup_actions as = []"
  shows "advances ch (act as (ch\<lparr>world := w\<rparr>))"
  using assms by (simp add: advances_def act_def heights_from_0)

lemma advances_cut_block: "advances ch (cut_block d ch b c off)"
  by (simp add: advances_def cut_block_def Let_def heights_from_1 cleanup_actions_def
      split: prod.splits)

lemma advances_write_batches: "advances ch (snd (write_batches d ch off cs i bs))"
proof (induction bs arbitrary: ch i)
  case Nil
  show ?case by (simp add: advances_refl)
next
  case (Cons b bs)
  show ?case
  proof (cases "i < length cs")
    case True
    then show ?thesis
      using advances_trans [OF advances_cut_block Cons.IH] by simp
  next
    case False
    then show ?thesis
      by (simp add: advances_def heights_from_0 cleanup_actions_def)
  qed
qed

lemma write_batches_outcome:
  "fst (write_batches d ch off cs i bs) = Continue \<or> fst (write_batches d ch off cs i bs) = Panic IndexOutOfRange"
  by (induction bs arbitrary: ch i) simp_all

lemma advances_loop_body: "advances ch (fst (snd (loop_body d (ch, timer) ev)))"
proof (cases ev)
  case (Recv in')
  show ?thesis
  proof (cases "snd (Unmarshal_KafkaMessage d (Value in'))")
    case KafkaMessage_Connect
    then show ?thesis using Recv by (simp add: loop_body_def advances_refl)
  next
    case (KafkaMessage_TimeToCut n)
    obtain batch' committers w1 where c: "Cut d (world ch) = ((batch', committers), w1)"
      by (cases "Cut d (world ch)") auto
    have q: "advances ch (act [Act_Cut] (ch\<lparr>world := w1\<rparr>))"
      by (rule advances_quiet) (simp_all add: cleanup_actions_def)
    have r: "advances ch (cut_block d (act [Act_Cut] (ch\<lparr>world := w1\<rparr>)) batch' committers (Offset in'))"
      by (rule advances_trans [OF q advances_cut_block])
    show ?thesis using Recv KafkaMessage_TimeToCut
      by (simp add: loop_body_def Let_def c q r advances_refl)
  next
    case (KafkaMessage_Regular payload)
    show ?thesis
    proof (cases "Unmarshal_Envelope d payload")
      case (Inl err)
      then show ?thesis using Recv KafkaMessage_Regular
        by (simp add: loop_body_def advances_refl)
    next
      case (Inr env)
      obtain batches committers ok w1 where c: "Ordered d (world ch) env = ((batches, committers, ok), w1)"
        by (cases "Ordered d (world ch) env") auto
      let ?ch1 = "act [Act_Ordered env] (ch\<lparr>world := w1\<rparr>)"
      obtain out ch2 where wb: "write_batches d ?ch1 (Offset in') committers 0 batches = (out, ch2)"
        by (cases "write_batches d ?ch1 (Offset in') committers 0 batches") auto
      have q: "advances ch ?ch1"
        by (rule advances_quiet) (simp_all add: cleanup_actions_def)
      have "advances ?ch1 ch2"
        using advances_write_batches [of ?ch1 d "Offset in'" committers 0 batches] wb by simp
      then have r: "advances ch ch2"
        by (rule advances_trans [OF q])
      show ?thesis using Recv KafkaMessage_Regular Inr
        by (cases out) (simp_all add: loop_body_def Let_def c wb q r)
    qed
  next
    case KafkaMessage_nil
    then show ?thesis using Recv by (simp add: loop_body_def advances_refl)
  qed
next
  case TimerFired
  have q: "advances ch (act [Act_Send p m] (ch\<lparr>world := w\<rparr>))" for w p m
    by (rule advances_quiet) (simp_all add: cleanup_actions_def)
  show ?thesis using TimerFired
    by (simp add: loop_body_def Let_def q split: prod.splits)
next
  case ExitSignal
  then show ?thesis by (simp add: loop_body_def advances_refl)
qed

lemma advances_counts: "advances ch ch' \<Longrightarrow> counts ch ch'"
  by (auto simp: advances_def counts_def)

lemma counts_refl: "counts ch ch"
  by (simp add: counts_def heights_from_0)

lemma counts_trans:
  assumes "counts a b" and "counts b c"
  shows "counts a c"
proof -
  from assms(1) obtain as where as:
    "trace b = trace a @ as"
    "written_heights as = heights_from (lastCutBlock a) (length (written_heights as))"
    "lastCutBlock b = lastCutBlock a + of_nat (length (written_heights as))"
    by (auto simp: counts_def)
  from assms(2) obtain bs where bs:
    "trace c = trace b @ bs"
    "written_heights bs = heights_from (lastCutBlock b) (length (written_heights bs))"
    "lastCutBlock c = lastCutBlock b + of_nat (length (written_heights bs))"
    by (auto simp: counts_def)
  have 1: "trace c = trace a @ (as @ bs)"
    using as(1) bs(1) by simp
  have 2: "written_heights (as @ bs) = heights_from (lastCutBlock a) (length (written_heights (as @ bs)))"
    using as(2) bs(2) as(3) by (simp add: written_heights_append heights_from_add)
  have 3: "lastCutBlock c = lastCutBlock a + of_nat (length (written_heights (as @ bs)))"
    using as(3) bs(3) by (simp add: written_heights_append)
  have 4: "lastOffsetPersisted c = lastOffsetPersisted a"
    using assms by (simp add: counts_def)
  show ?thesis
    unfolding counts_def using 1 2 3 4 by blast
qed

lemma counts_quiet:
  assumes "trace ch' = trace ch @ as" and "written_heights as = []"
    and "lastCutBlock ch' = lastCutBlock ch" and "lastOffsetPersisted ch' = lastOffsetPersisted ch"
  shows "counts ch ch'"
  unfolding counts_def using assms by (auto simp: heights_from_0)

lemma counts_new_actions:
  assumes "counts ch ch'"
  shows "trace ch' = trace ch @ new_actions ch ch'"
    and "written_heights (new_actions ch ch')
           = heights_from (lastCutBlock ch) (length (written_heights (new_actions ch ch')))"
    and "lastCutBlock ch' = lastCutBlock ch + of_nat (length (written_heights (new_actions ch ch')))"
    and "lastOffsetPersisted ch' = lastOffsetPersisted ch"
  using assms by (auto simp: counts_def new_actions_def)

lemma loop_exit_Open:
  assumes "haltedChan ch = Open"
  shows "loop_exit d raised ch =
     (let ch' = ch\<lparr>world := producer_Close d (consumer_Close d (world ch)), halted := True,
                   haltedChan := Closed,
                   trace := trace ch @ [Act_consumer_Close, Act_set_halted, Act_producer_Close,
                                        Act_close_haltedChan]\<rparr>
      in case raised of None \<Rightarrow> Exited ch' | Some p \<Rightarrow> Panicked p ch')"
  using assms by (simp add: loop_exit_def loop_deferred_def act_def Let_def split: option.splits)

lemma loop_exit_Closed:
  assumes "haltedChan ch = Closed"
  shows "loop_exit d raised ch =
     Panicked CloseOfClosedChannel
       (ch\<lparr>world := producer_Close d (consumer_Close d (world ch)), halted := True,
           trace := trace ch @ [Act_consumer_Close, Act_set_halted, Act_producer_Close]\<rparr>)"
  using assms by (simp add: loop_exit_def loop_deferred_def act_def Let_def)

lemma counts_loop_exit: "counts ch (result_chain (loop_exit d raised ch))"
proof (cases "haltedChan ch")
  case Open
  then show ?thesis
    by (cases raised) (auto simp: loop_exit_Open intro!: counts_quiet)
next
  case Closed
  then show ?thesis
    by (auto simp: loop_exit_Closed intro!: counts_quiet)
qed

lemma halted_loop_exit: "halted (result_chain (loop_exit d raised ch))"
  by (cases "haltedChan ch"; cases raised) (simp_all add: loop_exit_Open loop_exit_Closed)

lemma loop_from_shape:
  "\<exists>ch1. advances ch ch1
     \<and> ((\<exists>t1. loop_from d (ch, t) evs = Running ch1 t1)
        \<or> (\<exists>raised. loop_from d (ch, t) evs = loop_exit d raised ch1))"
proof (induction evs arbitrary: ch t)
  case Nil
  show ?case using advances_refl [of ch] by auto
next
  case (Cons ev evs)
  show ?case
  proof (cases "enabled (ch, t) ev")
    case False
    then show ?thesis using Cons.IH [of ch t] by simp
  next
    case True
    obtain out ch' t' where b: "loop_body d (ch, t) ev = (out, ch', t')"
      by (cases "loop_body d (ch, t) ev") auto
    have a: "advances ch ch'"
      using advances_loop_body [of ch d t ev] b by simp
    show ?thesis
    proof (cases out)
      case Continue
      from Cons.IH [of ch' t'] obtain ch1 where
        "advances ch' ch1"
        "(\<exists>t1. loop_from d (ch', t') evs = Running ch1 t1)
           \<or> (\<exists>raised. loop_from d (ch', t') evs = loop_exit d raised ch1)"
        by blast
      then show ?thesis
        using True b Continue advances_trans [OF a] by auto
    next
      case Return
      then show ?thesis using True b a by auto
    next
      case (Panic p)
      then show ?thesis using True b a by auto
    qed
  qed
qed

lemma counts_loop_from: "counts ch (result_chain (loop_from d (ch, t) evs))"
proof -
  from loop_from_shape [of ch d t evs] obtain ch1 where a: "advances ch ch1"
    and r: "(\<exists>t1. loop_from d (ch, t) evs = Running ch1 t1)
        \<or> (\<exists>raised. loop_from d (ch, t) evs = loop_exit d raised ch1)"
    by blast
  from r show ?thesis
  proof
    assume "\<exists>t1. loop_from d (ch, t) evs = Running ch1 t1"
    then show ?thesis using advances_counts [OF a] by auto
  next
    assume "\<exists>raised. loop_from d (ch, t) evs = loop_exit d raised ch1"
    then show ?thesis
      using counts_trans [OF advances_counts [OF a] counts_loop_exit] by auto
  qed
qed

lemma counts_loop: "counts ch (result_chain (loop d ch evs))"
proof (cases "consumer ch")
  case None
  then show ?thesis
    by (cases "haltedChan ch") (auto simp: loop_def act_def intro!: counts_quiet)
next
  case (Some c)
  then show ?thesis by (simp add: loop_def counts_loop_from)
qed

lemma distinct_heights_from:
  assumes "k \<le> 2 ^ 64"
  shows "distinct (heights_from a k)"
proof -
  have "inj_on (\<lambda>i. a + 1 + (of_nat i :: 64 word)) {0..<k}"
  proof (rule inj_onI)
    fix i j assume i: "i \<in> {0..<k}" and j: "j \<in> {0..<k}"
      and e: "a + 1 + (of_nat i :: 64 word) = a + 1 + of_nat j"
    from e have "(of_nat i :: 64 word) = of_nat j" by simp
    moreover have "i < 2 ^ LENGTH(64)" "j < 2 ^ LENGTH(64)" using i j assms by auto
    ultimately show "i = j"
      by (simp add: word_of_nat_eq_iff take_bit_nat_eq_self)
  qed
  then show ?thesis
    by (simp add: heights_from_def distinct_map)
qed

text \<open>The definitions a run of the small instance unfolds.\<close>

lemmas ex_defs =
  ex_deps_def ex_deps_down_def ex_msg_def ex_Unmarshal_KafkaMessage_def ex_Marshal_KafkaMessage_def
  ex_Unmarshal_KafkaMetadata_def ex_Ordered_def ex_running_def ex_halted_def
  newChain_def newChainPartition_def Start_def Start_abort_def Halt_def act_def
  loop_def loop_body_def loop_exit_def loop_deferred_def cut_block_def run_def new_actions_def
  cleanup_actions_def heights_from_def Enqueue_def HandleChain_def getLastOffsetPersisted_def

subsection \<open>Recovering the persisted offset\<close>

text \<open>
  C7. \<open>getLastOffsetPersisted\<close>, which \<open>HandleChain\<close> calls, fails (it panics, and
  \<open>HandleChain\<close> with it) if and only if the metadata value is present and cannot be
  unmarshalled as a \<open>KafkaMetadata\<close>. When the value is absent it returns the sentinel
  \<open>OffsetOldest - 1\<close>; when it is present and decodable it returns the embedded
  \<open>LastOffsetPersisted\<close>.
\<close>

theorem getLastOffsetPersisted_cases:
  "(getLastOffsetPersisted d metadata = Inl LedgerCorrupted
      \<longleftrightarrow> (\<exists>v err. Metadata_Value metadata = Some v \<and> Unmarshal_KafkaMetadata d v = Inl err))
   \<and> (isl (getLastOffsetPersisted d metadata)
      \<longleftrightarrow> getLastOffsetPersisted d metadata = Inl LedgerCorrupted)
   \<and> (isl (HandleChain d w metadata) \<longleftrightarrow> isl (getLastOffsetPersisted d metadata))
   \<and> (Metadata_Value metadata = None
      \<longrightarrow> getLastOffsetPersisted d metadata = Inr (OffsetOldest d - 1))
   \<and> (\<forall>v kafkaMetadata.
        Metadata_Value metadata = Some v \<and> Unmarshal_KafkaMetadata d v = Inr kafkaMetadata
        \<longrightarrow> getLastOffsetPersisted d metadata = Inr (LastOffsetPersisted kafkaMetadata))"
  by (auto simp: getLastOffsetPersisted_def HandleChain_def split: option.splits sum.splits)

theorem getLastOffsetPersisted_cases_witness:
  "getLastOffsetPersisted (ex_deps 1) \<lparr>Metadata_Value = Some [1, 2]\<rparr> = Inl LedgerCorrupted
   \<and> getLastOffsetPersisted (ex_deps 1) \<lparr>Metadata_Value = None\<rparr> = Inr (- 3)
   \<and> getLastOffsetPersisted (ex_deps 1) \<lparr>Metadata_Value = Some [7]\<rparr> = Inr 7"
proof -
  have a: "Metadata_Value \<lparr>Metadata_Value = Some [1, 2]\<rparr> = Some [1, 2]
           \<and> Unmarshal_KafkaMetadata (ex_deps 1) [1, 2] = Inl ''malformed''"
    by (simp add: ex_deps_def ex_Unmarshal_KafkaMetadata_def)
  have b: "Metadata_Value \<lparr>Metadata_Value = None\<rparr> = None"
    by simp
  have c: "Metadata_Value \<lparr>Metadata_Value = Some [7]\<rparr> = Some [7]
           \<and> Unmarshal_KafkaMetadata (ex_deps 1) [7] = Inr \<lparr>LastOffsetPersisted = 7\<rparr>"
    by (simp add: ex_deps_def ex_Unmarshal_KafkaMetadata_def)
  have "getLastOffsetPersisted (ex_deps 1) \<lparr>Metadata_Value = Some [1, 2]\<rparr> = Inl LedgerCorrupted"
    using getLastOffsetPersisted_cases [of "ex_deps 1" "\<lparr>Metadata_Value = Some [1, 2]\<rparr>"] a by blast
  moreover have "getLastOffsetPersisted (ex_deps 1) \<lparr>Metadata_Value = None\<rparr> = Inr (OffsetOldest (ex_deps 1) - 1)"
    using getLastOffsetPersisted_cases [of "ex_deps 1" "\<lparr>Metadata_Value = None\<rparr>"] b by blast
  moreover have "getLastOffsetPersisted (ex_deps 1) \<lparr>Metadata_Value = Some [7]\<rparr>
                   = Inr (LastOffsetPersisted \<lparr>LastOffsetPersisted = 7\<rparr>)"
    using getLastOffsetPersisted_cases [of "ex_deps 1" "\<lparr>Metadata_Value = Some [7]\<rparr>"] c by blast
  ultimately show ?thesis
    by (simp add: ex_deps_def)
qed

subsection \<open>Block heights\<close>

text \<open>
  C3. In every run of the event loop the heights of the blocks written by
  \<open>support.WriteBlock\<close> are \<open>lastCutBlock + 1\<close>, \<open>lastCutBlock + 2\<close>, ... (in
  \<open>uint64\<close>), one after the other without gap or repeat, and \<open>lastCutBlock\<close> ends
  as its initial value plus the number of blocks written: it is incremented once for each
  written block and is changed nowhere else.
\<close>

theorem loop_heights_consecutive:
  "let ch' = result_chain (loop d ch evs);
       new = new_actions ch ch';
       hs = written_heights new
   in trace ch' = trace ch @ new
      \<and> hs = map (\<lambda>i. lastCutBlock ch + 1 + of_nat i) [0..<length hs]
      \<and> lastCutBlock ch' = lastCutBlock ch + of_nat (length hs)
      \<and> (length hs \<le> 2 ^ 64 \<longrightarrow> distinct hs)"
proof -
  let ?ch' = "result_chain (loop d ch evs)"
  let ?hs = "written_heights (new_actions ch ?ch')"
  note c = counts_new_actions [OF counts_loop [of ch d evs]]
  have "length ?hs \<le> 2 ^ 64 \<longrightarrow> distinct ?hs"
    using distinct_heights_from [of "length ?hs" "lastCutBlock ch"] c(2) by simp
  then show ?thesis
    using c(1) c(2) c(3) unfolding Let_def heights_from_def by blast
qed

theorem loop_heights_consecutive_witness:
  "written_heights (new_actions (ex_running 1)
      (result_chain (loop (ex_deps 1) (ex_running 1)
         [Recv (ex_msg [2, 9] 1), Recv (ex_msg [2, 8] 2), Recv (ex_msg [2, 8] 3), TimerFired,
          Recv (ex_msg [1, 2] 4)]))) = [1, 2]
   \<and> lastCutBlock (ex_running 1) = 0
   \<and> lastCutBlock (result_chain (loop (ex_deps 1) (ex_running 1)
         [Recv (ex_msg [2, 9] 1), Recv (ex_msg [2, 8] 2), Recv (ex_msg [2, 8] 3), TimerFired,
          Recv (ex_msg [1, 2] 4)])) = 2"
proof -
  let ?evs = "[Recv (ex_msg [2, 9] 1), Recv (ex_msg [2, 8] 2), Recv (ex_msg [2, 8] 3), TimerFired,
          Recv (ex_msg [1, 2] 4)]"
  have l: "length (written_heights (new_actions (ex_running 1)
      (result_chain (loop (ex_deps 1) (ex_running 1) ?evs)))) = 2"
    by (simp add: ex_defs)
  have z: "lastCutBlock (ex_running 1) = 0"
    by (simp add: ex_defs)
  show ?thesis
    using loop_heights_consecutive [where d = "ex_deps 1" and ch = "ex_running 1" and evs = ?evs] l z
    by (simp add: Let_def numeral_2_eq_2)
qed

lemma Start_counts:
  assumes "Start d ch = Inr (ch1, spawned)"
  shows "counts ch ch1" and "written_heights (new_actions ch ch1) = []"
proof -
  obtain err w1 where s: "producer_Send d (world ch) (partition ch)
      (Marshal_KafkaMessage d KafkaMessage_Connect) = (err, w1)"
    by (cases "producer_Send d (world ch) (partition ch) (Marshal_KafkaMessage d KafkaMessage_Connect)") auto
  obtain res w2 where c: "consFunc d w1 (partition ch) (lastOffsetPersisted ch + 1) = (res, w2)"
    by (cases "consFunc d w1 (partition ch) (lastOffsetPersisted ch + 1)") auto
  have "\<exists>as. trace ch1 = trace ch @ as \<and> written_heights as = []
          \<and> lastCutBlock ch1 = lastCutBlock ch \<and> lastOffsetPersisted ch1 = lastOffsetPersisted ch"
    using assms
    by (auto simp: Start_def Start_abort_def act_def Let_def s c
        split: if_splits sum.splits)
  then obtain as where as: "trace ch1 = trace ch @ as" "written_heights as = []"
    "lastCutBlock ch1 = lastCutBlock ch" "lastOffsetPersisted ch1 = lastOffsetPersisted ch"
    by blast
  show "counts ch ch1"
    using as by (rule counts_quiet)
  show "written_heights (new_actions ch ch1) = []"
    using as by (simp add: new_actions_def)
qed

lemma Start_open:
  assumes "exitChan ch = Open" and "setupChan ch = Open"
  shows "\<exists>ch1 spawned. Start d ch = Inr (ch1, spawned)"
proof -
  obtain err w1 where s: "producer_Send d (world ch) (partition ch)
      (Marshal_KafkaMessage d KafkaMessage_Connect) = (err, w1)"
    by (cases "producer_Send d (world ch) (partition ch) (Marshal_KafkaMessage d KafkaMessage_Connect)") auto
  obtain res w2 where c: "consFunc d w1 (partition ch) (lastOffsetPersisted ch + 1) = (res, w2)"
    by (cases "consFunc d w1 (partition ch) (lastOffsetPersisted ch + 1)") auto
  show ?thesis
    using assms
    by (cases res) (auto simp: Start_def Start_abort_def act_def Let_def s c)
qed

lemma counts_run:
  assumes "run d ch evs = Inr r"
  shows "counts ch (result_chain r)"
proof -
  from assms obtain ch1 spawned where s: "Start d ch = Inr (ch1, spawned)"
    and r: "r = (if spawned then loop d ch1 evs else Exited ch1)"
    by (auto simp: run_def split: sum.splits)
  have "counts ch1 (result_chain r)"
    using r counts_loop [of ch1 d evs] counts_refl [of ch1] by simp
  then show ?thesis
    by (rule counts_trans [OF Start_counts(1) [OF s]])
qed

subsection \<open>The first block of a fresh chain\<close>

text \<open>
  C10. \<open>newChain\<close> sets \<open>lastCutBlock\<close> to \<open>support.Height() - 1\<close>, so that for a freshly
  constructed chain driver, started and run on any events, the blocks written have the
  heights \<open>Height\<close>, \<open>Height + 1\<close>, ...: the first block written has the height of the
  ledger at construction time.
\<close>

theorem newChain_first_height:
  "lastCutBlock (newChain d w off) = Height d w - 1
   \<and> (\<exists>r. run d (newChain d w off) evs = Inr r
        \<and> (let hs = written_heights (trace (result_chain r))
           in hs = map (\<lambda>i. Height d w + of_nat i) [0..<length hs]
              \<and> (hs \<noteq> [] \<longrightarrow> hd hs = Height d w)))"
proof -
  let ?ch = "newChain d w off"
  have l: "lastCutBlock ?ch = Height d w - 1"
    by (simp add: newChain_def)
  have "exitChan ?ch = Open" "setupChan ?ch = Open"
    by (simp_all add: newChain_def)
  then obtain ch1 spawned where s: "Start d ?ch = Inr (ch1, spawned)"
    using Start_open by blast
  then obtain r where r: "run d ?ch evs = Inr r"
    by (simp add: run_def)
  let ?hs = "written_heights (trace (result_chain r))"
  note c = counts_new_actions [OF counts_run [OF r]]
  have "trace ?ch = [Act_prodFunc]"
    by (simp add: newChain_def)
  then have "?hs = written_heights (new_actions ?ch (result_chain r))"
    using c(1) by (simp add: written_heights_append)
  then have h: "?hs = map (\<lambda>i. Height d w + of_nat i) [0..<length ?hs]"
    using c(2) l by (simp add: heights_from_def)
  have "hd ?hs = Height d w" if "?hs \<noteq> []"
  proof -
    from that have "0 < length ?hs" by simp
    then have "hd (map (\<lambda>i. Height d w + of_nat i) [0..<length ?hs]) = Height d w"
      by (simp add: hd_map)
    then show ?thesis using h by simp
  qed
  then show ?thesis
    using l r h unfolding Let_def by blast
qed

theorem newChain_first_height_witness:
  "lastCutBlock (newChain (ex_deps 0) [] (- 3)) = (0::uint64) - 1
   \<and> written_heights (trace (result_chain (projr (run (ex_deps 0) (newChain (ex_deps 0) [] (- 3))
        [Recv (ex_msg [2, 9] 1), Recv (ex_msg [2, 8] 2), Recv (ex_msg [2, 8] 3)])))) \<noteq> []
   \<and> hd (written_heights (trace (result_chain (projr (run (ex_deps 0) (newChain (ex_deps 0) [] (- 3))
        [Recv (ex_msg [2, 9] 1), Recv (ex_msg [2, 8] 2), Recv (ex_msg [2, 8] 3)]))))) = 0"
proof -
  let ?evs = "[Recv (ex_msg [2, 9] 1), Recv (ex_msg [2, 8] 2), Recv (ex_msg [2, 8] 3)]"
  have n: "written_heights (trace (result_chain (projr (run (ex_deps 0) (newChain (ex_deps 0) [] (- 3)) ?evs)))) \<noteq> []"
    by (simp add: ex_defs)
  have h: "Height (ex_deps 0) [] = 0"
    by (simp add: ex_deps_def)
  show ?thesis
    using newChain_first_height [where d = "ex_deps 0" and w = "[]" and off = "- 3" and evs = ?evs] n h
    by (auto simp: Let_def)
qed

lemma new_actions_append:
  "trace ch' = trace ch @ as \<Longrightarrow> new_actions ch ch' = as"
  by (simp add: new_actions_def)

subsection \<open>The deferred calls of the loop\<close>

text \<open>
  C9, as amended. When the event loop exits, on a return or on a panic, its deferred
  actions are the last four it takes and they run in this order: close the consumer, mark
  \<open>halted\<close>, close the producer, close the halted-signal channel. Until then none of them
  is taken. (The loop is the one \<open>Start\<close> spawns: the consumer is set and the
  halted-signal channel open.)
\<close>

theorem loop_cleanup_order:
  assumes "consumer ch = Some c" and "haltedChan ch = Open"
  shows "case loop d ch evs of
           Running ch' timer \<Rightarrow> cleanup_actions (new_actions ch ch') = []
         | Exited ch' \<Rightarrow>
             (\<exists>as. new_actions ch ch'
                     = as @ [Act_consumer_Close, Act_set_halted, Act_producer_Close, Act_close_haltedChan]
                   \<and> cleanup_actions as = [])
         | Panicked p ch' \<Rightarrow>
             (\<exists>as. new_actions ch ch'
                     = as @ [Act_consumer_Close, Act_set_halted, Act_producer_Close, Act_close_haltedChan]
                   \<and> cleanup_actions as = [])"
proof -
  from loop_from_shape [of ch d None evs] obtain ch1 where a: "advances ch ch1"
    and r: "(\<exists>t1. loop_from d (ch, None) evs = Running ch1 t1)
        \<or> (\<exists>raised. loop_from d (ch, None) evs = loop_exit d raised ch1)"
    by blast
  from a obtain as where as: "trace ch1 = trace ch @ as" "cleanup_actions as = []"
    and h: "haltedChan ch1 = haltedChan ch"
    by (auto simp: advances_def)
  have l: "loop d ch evs = loop_from d (ch, None) evs"
    using assms(1) by (simp add: loop_def)
  from r show ?thesis
  proof
    assume "\<exists>t1. loop_from d (ch, None) evs = Running ch1 t1"
    then show ?thesis
      using l as by (auto simp: new_actions_append)
  next
    assume "\<exists>raised. loop_from d (ch, None) evs = loop_exit d raised ch1"
    then obtain raised where e: "loop_from d (ch, None) evs = loop_exit d raised ch1"
      by blast
    have o: "haltedChan ch1 = Open"
      using h assms(2) by simp
    show ?thesis
      using l e as
      by (cases raised) (simp_all add: loop_exit_Open [OF o] new_actions_def)
  qed
qed

theorem loop_cleanup_order_witness:
  "consumer (ex_halted 1) = Some 0 \<and> haltedChan (ex_halted 1) = Open
   \<and> new_actions (ex_halted 1)
        (result_chain (loop (ex_deps 1) (ex_halted 1) [Recv (ex_msg [2, 9] 1), ExitSignal]))
      = [Act_Ordered \<lparr>Payload = [9], Signature = []\<rparr>,
         Act_consumer_Close, Act_set_halted, Act_producer_Close, Act_close_haltedChan]"
proof -
  have a: "consumer (ex_halted 1) = Some 0" and b: "haltedChan (ex_halted 1) = Open"
    by (simp_all add: ex_defs)
  have "new_actions (ex_halted 1)
        (result_chain (loop (ex_deps 1) (ex_halted 1) [Recv (ex_msg [2, 9] 1), ExitSignal]))
      = [Act_Ordered \<lparr>Payload = [9], Signature = []\<rparr>,
         Act_consumer_Close, Act_set_halted, Act_producer_Close, Act_close_haltedChan]"
    using loop_cleanup_order [OF a b, where d = "ex_deps 1"
        and evs = "[Recv (ex_msg [2, 9] 1), ExitSignal]"]
    by (simp add: ex_defs)
  then show ?thesis using a b by simp
qed

text \<open>
  As C9 is stated, the producer would be closed before \<open>halted\<close> is set. The loop that
  takes the exit signal does it the other way round.
\<close>

theorem loop_cleanup_order_counterexample:
  "cleanup_actions (new_actions (ex_halted 1)
       (result_chain (loop (ex_deps 1) (ex_halted 1) [ExitSignal])))
     \<noteq> [Act_consumer_Close, Act_producer_Close, Act_set_halted, Act_close_haltedChan]"
  by (simp add: ex_defs)

lemma stamps_refl: "stamps m ch ch"
  by (simp add: stamps_def)

lemma stamps_trans:
  assumes "stamps m a b" and "stamps m b c"
  shows "stamps m a c"
proof -
  from assms(1) obtain as where as: "trace b = trace a @ as" "set (written_metadata as) \<subseteq> {m}"
    by (auto simp: stamps_def)
  from assms(2) obtain bs where bs: "trace c = trace b @ bs" "set (written_metadata bs) \<subseteq> {m}"
    by (auto simp: stamps_def)
  have "trace c = trace a @ (as @ bs)" "set (written_metadata (as @ bs)) \<subseteq> {m}"
    using as bs by (simp_all add: written_metadata_append)
  then show ?thesis
    unfolding stamps_def by blast
qed

lemma stamps_quiet:
  assumes "written_metadata as = []"
  shows "stamps m ch (act as (ch\<lparr>world := w\<rparr>))"
  using assms by (simp add: stamps_def act_def)

lemma stamps_cut_block:
  "stamps (Marshal_KafkaMetadata d \<lparr>LastOffsetPersisted = off\<rparr>) ch (cut_block d ch b c off)"
  by (simp add: stamps_def cut_block_def Let_def split: prod.splits)

lemma stamps_write_batches:
  "stamps (Marshal_KafkaMetadata d \<lparr>LastOffsetPersisted = off\<rparr>) ch
     (snd (write_batches d ch off cs i bs))"
proof (induction bs arbitrary: ch i)
  case Nil
  show ?case by (simp add: stamps_refl)
next
  case (Cons b bs)
  show ?case
  proof (cases "i < length cs")
    case True
    then show ?thesis
      using stamps_trans [OF stamps_cut_block Cons.IH] by simp
  next
    case False
    then show ?thesis
      by (simp add: stamps_def)
  qed
qed

lemma stamps_loop_body:
  "stamps (Marshal_KafkaMetadata d \<lparr>LastOffsetPersisted = Offset in'\<rparr>) ch
     (fst (snd (loop_body d (ch, timer) (Recv in'))))"
proof (cases "snd (Unmarshal_KafkaMessage d (Value in'))")
  case KafkaMessage_Connect
  then show ?thesis by (simp add: loop_body_def stamps_refl)
next
  case (KafkaMessage_TimeToCut n)
  obtain batch' committers w1 where c: "Cut d (world ch) = ((batch', committers), w1)"
    by (cases "Cut d (world ch)") auto
  have q: "stamps m ch (act [Act_Cut] (ch\<lparr>world := w1\<rparr>))" for m
    by (rule stamps_quiet) simp
  have r: "stamps (Marshal_KafkaMetadata d \<lparr>LastOffsetPersisted = Offset in'\<rparr>) ch
       (cut_block d (act [Act_Cut] (ch\<lparr>world := w1\<rparr>)) batch' committers (Offset in'))"
    by (rule stamps_trans [OF q stamps_cut_block])
  show ?thesis using KafkaMessage_TimeToCut
    by (simp add: loop_body_def Let_def c q r stamps_refl)
next
  case (KafkaMessage_Regular payload)
  show ?thesis
  proof (cases "Unmarshal_Envelope d payload")
    case (Inl err)
    then show ?thesis using KafkaMessage_Regular
      by (simp add: loop_body_def stamps_refl)
  next
    case (Inr env)
    obtain batches committers ok w1 where c: "Ordered d (world ch) env = ((batches, committers, ok), w1)"
      by (cases "Ordered d (world ch) env") auto
    let ?ch1 = "act [Act_Ordered env] (ch\<lparr>world := w1\<rparr>)"
    let ?m = "Marshal_KafkaMetadata d \<lparr>LastOffsetPersisted = Offset in'\<rparr>"
    obtain out ch2 where wb: "write_batches d ?ch1 (Offset in') committers 0 batches = (out, ch2)"
      by (cases "write_batches d ?ch1 (Offset in') committers 0 batches") auto
    have q: "stamps ?m ch ?ch1"
      by (rule stamps_quiet) simp
    have "stamps ?m ?ch1 ch2"
      using stamps_write_batches [of d "Offset in'" ?ch1 committers 0 batches] wb by simp
    then have r: "stamps ?m ch ch2"
      by (rule stamps_trans [OF q])
    show ?thesis using KafkaMessage_Regular Inr
      by (cases out) (simp_all add: loop_body_def Let_def c wb q r)
  qed
next
  case KafkaMessage_nil
  then show ?thesis by (simp add: loop_body_def stamps_refl)
qed

subsection \<open>The persisted offset\<close>

text \<open>
  C6, as amended. The event loop never changes the field \<open>lastOffsetPersisted\<close>, which
  keeps the value the constructor gave it (so it does not decrease); what the loop does
  with the offset of a consumed message is to write it as the metadata of every block it
  writes on consuming that message.
\<close>

theorem lastOffsetPersisted_constant:
  "lastOffsetPersisted (result_chain (loop d ch evs)) = lastOffsetPersisted ch
   \<and> sint (lastOffsetPersisted ch) \<le> sint (lastOffsetPersisted (result_chain (loop d ch evs)))
   \<and> (\<forall>m \<in> set (written_metadata
                    (new_actions ch (fst (snd (loop_body d (ch, timer) (Recv in')))))).
         m = Marshal_KafkaMetadata d \<lparr>LastOffsetPersisted = Offset in'\<rparr>)"
proof -
  have 1: "lastOffsetPersisted (result_chain (loop d ch evs)) = lastOffsetPersisted ch"
    using counts_loop [of ch d evs] by (simp add: counts_def)
  have 3: "\<forall>m \<in> set (written_metadata
                    (new_actions ch (fst (snd (loop_body d (ch, timer) (Recv in')))))).
         m = Marshal_KafkaMetadata d \<lparr>LastOffsetPersisted = Offset in'\<rparr>"
    using stamps_loop_body [of d in' ch timer]
    by (auto simp: stamps_def new_actions_def)
  show ?thesis
    using 1 3 by simp
qed

theorem lastOffsetPersisted_constant_witness:
  "written_metadata (new_actions (ex_running 1\<lparr>world := [\<lparr>Payload = [9], Signature = []\<rparr>]\<rparr>)
       (fst (snd (loop_body (ex_deps 1)
          (ex_running 1\<lparr>world := [\<lparr>Payload = [9], Signature = []\<rparr>]\<rparr>, Some 1000)
          (Recv (ex_msg [2, 8] 2))))))
     = [Marshal_KafkaMetadata (ex_deps 1) \<lparr>LastOffsetPersisted = Offset (ex_msg [2, 8] 2)\<rparr>]
   \<and> lastOffsetPersisted (result_chain (loop (ex_deps 1) (ex_running 1)
        [Recv (ex_msg [2, 9] 1), Recv (ex_msg [2, 8] 2)])) = - 3"
proof -
  let ?ch = "ex_running 1\<lparr>world := [\<lparr>Payload = [9], Signature = []\<rparr>]\<rparr>"
  let ?ms = "written_metadata (new_actions ?ch
       (fst (snd (loop_body (ex_deps 1) (?ch, Some 1000) (Recv (ex_msg [2, 8] 2))))))"
  let ?m = "Marshal_KafkaMetadata (ex_deps 1) \<lparr>LastOffsetPersisted = Offset (ex_msg [2, 8] 2)\<rparr>"
  have l: "length ?ms = 1"
    by (simp add: ex_defs)
  have a: "\<forall>m \<in> set ?ms. m = ?m"
    using lastOffsetPersisted_constant [where d = "ex_deps 1" and ch = ?ch and timer = "Some 1000"
        and in' = "ex_msg [2, 8] 2"]
    by blast
  from l obtain x where x: "?ms = [x]"
    by (cases ?ms) auto
  then have 1: "?ms = [?m]"
    using a by simp
  have p: "lastOffsetPersisted (ex_running 1) = - 3"
    by (simp add: ex_defs)
  have 2: "lastOffsetPersisted (result_chain (loop (ex_deps 1) (ex_running 1)
        [Recv (ex_msg [2, 9] 1), Recv (ex_msg [2, 8] 2)])) = - 3"
    using lastOffsetPersisted_constant [where d = "ex_deps 1" and ch = "ex_running 1"
        and evs = "[Recv (ex_msg [2, 9] 1), Recv (ex_msg [2, 8] 2)]"] p
    by simp
  show ?thesis
    using 1 2 by blast
qed

text \<open>
  As C6 is stated, the field would hold the offset of the last message folded into a
  block. After the loop has written a block on consuming the message at offset 2, the
  block carries 2 and the field does not.
\<close>

theorem lastOffsetPersisted_counterexample:
  "written_metadata (trace (result_chain (loop (ex_deps 1) (ex_running 1)
        [Recv (ex_msg [2, 9] 1), Recv (ex_msg [2, 8] 2)])))
     = [Marshal_KafkaMetadata (ex_deps 1) \<lparr>LastOffsetPersisted = 2\<rparr>]
   \<and> lastOffsetPersisted (result_chain (loop (ex_deps 1) (ex_running 1)
        [Recv (ex_msg [2, 9] 1), Recv (ex_msg [2, 8] 2)])) \<noteq> 2"
  by (simp add: ex_defs)

lemma word_less_inc_iff:
  "N < l + 1 \<longleftrightarrow> N \<le> l \<and> l \<noteq> - 1" for N l :: "64 word"
proof
  assume a: "N < l + 1"
  have "l \<noteq> - 1"
  proof
    assume "l = - 1"
    then show False using a by simp
  qed
  then show "N \<le> l \<and> l \<noteq> - 1"
    using a less_inc_imp_less_eq by blast
next
  assume a: "N \<le> l \<and> l \<noteq> - 1"
  then have "\<not> l + 1 \<le> l"
    by (simp add: inc_less_eq_self_iff_eq)
  then have "l < l + 1" by simp
  moreover have "N \<le> l" using a by simp
  ultimately show "N < l + 1"
    by (rule le_less_trans [rotated])
qed

subsection \<open>Time-to-cut messages\<close>

text \<open>
  C1, as amended. On every consumed time-to-cut message with block number \<open>N\<close> the loop
  goes by \<open>N\<close> against \<open>lastCutBlock + 1\<close>, computed in \<open>uint64\<close>. If they are equal it
  clears the timer and calls \<open>BlockCutter.Cut()\<close>; on an empty batch it exits, otherwise it
  writes the block and increments \<open>lastCutBlock\<close>. If \<open>N\<close> is greater it exits. If \<open>N\<close> is
  less it ignores the message and leaves all state unchanged; that is the case of
  \<open>N \<le> lastCutBlock\<close> whenever \<open>lastCutBlock\<close> is not \<open>2^64 - 1\<close>.
\<close>

theorem TimeToCut_trichotomy:
  assumes "snd (Unmarshal_KafkaMessage d (Value in')) = KafkaMessage_TimeToCut N"
  shows
    "(N = lastCutBlock ch + 1 \<longrightarrow>
        (let ((batch', committers), w1) = Cut d (world ch);
             ch1 = ch\<lparr>world := w1, trace := trace ch @ [Act_Cut]\<rparr>
         in if batch' = []
            then loop_from d (ch, timer) (Recv in' # evs) = loop_exit d None ch1
            else
              (let (block, w2) = CreateNextBlock d w1 batch';
                   enc = Marshal_KafkaMetadata d \<lparr>LastOffsetPersisted = Offset in'\<rparr>
               in loop_from d (ch, timer) (Recv in' # evs)
                  = loop_from d
                      (ch\<lparr>world := WriteBlock d w2 block committers enc,
                          trace := trace ch @ [Act_Cut, Act_CreateNextBlock batch',
                                               Act_WriteBlock (lastCutBlock ch + 1) block committers enc],
                          lastCutBlock := lastCutBlock ch + 1\<rparr>,
                       None) evs)))
     \<and> (N > lastCutBlock ch + 1 \<longrightarrow>
          loop_from d (ch, timer) (Recv in' # evs) = loop_exit d None ch)
     \<and> (N < lastCutBlock ch + 1 \<longrightarrow>
          loop_from d (ch, timer) (Recv in' # evs) = loop_from d (ch, timer) evs)
     \<and> (N < lastCutBlock ch + 1 \<longleftrightarrow> N \<le> lastCutBlock ch \<and> lastCutBlock ch \<noteq> - 1)"
proof -
  obtain batch' committers w1 where c: "Cut d (world ch) = ((batch', committers), w1)"
    by (cases "Cut d (world ch)") auto
  obtain block w2 where b: "CreateNextBlock d w1 batch' = (block, w2)"
    by (cases "CreateNextBlock d w1 batch'") auto
  have 1: "N = lastCutBlock ch + 1 \<Longrightarrow> batch' = [] \<Longrightarrow>
      loop_from d (ch, timer) (Recv in' # evs)
        = loop_exit d None (ch\<lparr>world := w1, trace := trace ch @ [Act_Cut]\<rparr>)"
    using assms by (simp add: loop_body_def c act_def)
  have 2: "N = lastCutBlock ch + 1 \<Longrightarrow> batch' \<noteq> [] \<Longrightarrow>
      loop_from d (ch, timer) (Recv in' # evs)
        = loop_from d
            (ch\<lparr>world := WriteBlock d w2 block committers
                            (Marshal_KafkaMetadata d \<lparr>LastOffsetPersisted = Offset in'\<rparr>),
                trace := trace ch @ [Act_Cut, Act_CreateNextBlock batch',
                                     Act_WriteBlock (lastCutBlock ch + 1) block committers
                                       (Marshal_KafkaMetadata d \<lparr>LastOffsetPersisted = Offset in'\<rparr>)],
                lastCutBlock := lastCutBlock ch + 1\<rparr>,
             None) evs"
    using assms by (simp add: loop_body_def Let_def c b act_def cut_block_def)
  have 3: "N > lastCutBlock ch + 1 \<Longrightarrow>
      loop_from d (ch, timer) (Recv in' # evs) = loop_exit d None ch"
    using assms by (auto simp: loop_body_def)
  have 4: "N < lastCutBlock ch + 1 \<Longrightarrow>
      loop_from d (ch, timer) (Recv in' # evs) = loop_from d (ch, timer) evs"
    using assms by (auto simp: loop_body_def)
  show ?thesis
    using 1 2 3 4 word_less_inc_iff [of N "lastCutBlock ch"]
    by (simp add: c b Let_def)
qed

text \<open>
  As C1 is stated, a message with \<open>N \<le> lastCutBlock\<close> is ignored. A chain constructed
  on a ledger of height 0 has \<open>lastCutBlock = 2^64 - 1\<close>, so that \<open>lastCutBlock + 1 = 0\<close>,
  and the message with \<open>N = 5\<close> makes its loop exit.
\<close>

theorem TimeToCut_trichotomy_counterexample:
  "snd (Unmarshal_KafkaMessage (ex_deps 0) (Value (ex_msg [1, 5] 1))) = KafkaMessage_TimeToCut 5
   \<and> (5::uint64) \<le> lastCutBlock (ex_running 0)
   \<and> fst (loop_body (ex_deps 0) (ex_running 0, None) (Recv (ex_msg [1, 5] 1))) = Return
   \<and> loop_from (ex_deps 0) (ex_running 0, None) [Recv (ex_msg [1, 5] 1)]
       \<noteq> loop_from (ex_deps 0) (ex_running 0, None) []"
  by (simp add: ex_defs)


theorem TimeToCut_trichotomy_witness:
  "snd (Unmarshal_KafkaMessage (ex_deps 4) (Value (ex_msg [1, 2] 7))) = KafkaMessage_TimeToCut 2
   \<and> (2::uint64) < lastCutBlock (ex_running 4) + 1
   \<and> loop_from (ex_deps 4) (ex_running 4, Some 9) [Recv (ex_msg [1, 2] 7)]
       = Running (ex_running 4) (Some 9)
   \<and> snd (Unmarshal_KafkaMessage (ex_deps 4) (Value (ex_msg [1, 5] 7))) = KafkaMessage_TimeToCut 5
   \<and> (5::uint64) > lastCutBlock (ex_running 4) + 1
   \<and> loop_from (ex_deps 4) (ex_running 4, Some 9) [Recv (ex_msg [1, 5] 7)]
       = loop_exit (ex_deps 4) None (ex_running 4)
   \<and> snd (Unmarshal_KafkaMessage (ex_deps 4) (Value (ex_msg [1, 4] 7))) = KafkaMessage_TimeToCut 4
   \<and> (4::uint64) = lastCutBlock (ex_running 4) + 1
   \<and> loop_from (ex_deps 4) (ex_running 4, Some 9) [Recv (ex_msg [1, 4] 7)]
       = loop_exit (ex_deps 4) None
           ((ex_running 4)\<lparr>world := [], trace := trace (ex_running 4) @ [Act_Cut]\<rparr>)
   \<and> lastCutBlock (result_chain (loop_from (ex_deps 4)
          ((ex_running 4)\<lparr>world := [\<lparr>Payload = [9], Signature = []\<rparr>]\<rparr>, Some 9)
          [Recv (ex_msg [1, 4] 7)])) = 4"
proof -
  let ?ch = "ex_running 4"
  let ?chp = "(ex_running 4)\<lparr>world := [\<lparr>Payload = [9], Signature = []\<rparr>]\<rparr>"
  have l: "lastCutBlock ?ch = 3" "lastCutBlock ?chp = 3"
    by (simp_all add: ex_defs)
  have w: "world ?ch = []" "world ?chp = [\<lparr>Payload = [9], Signature = []\<rparr>]"
    by (simp_all add: ex_defs)
  have m2: "snd (Unmarshal_KafkaMessage (ex_deps 4) (Value (ex_msg [1, 2] 7))) = KafkaMessage_TimeToCut 2"
    and m5: "snd (Unmarshal_KafkaMessage (ex_deps 4) (Value (ex_msg [1, 5] 7))) = KafkaMessage_TimeToCut 5"
    and m4: "snd (Unmarshal_KafkaMessage (ex_deps 4) (Value (ex_msg [1, 4] 7))) = KafkaMessage_TimeToCut 4"
    by (simp_all add: ex_deps_def ex_msg_def ex_Unmarshal_KafkaMessage_def)
  have a: "loop_from (ex_deps 4) (?ch, Some 9) [Recv (ex_msg [1, 2] 7)] = Running ?ch (Some 9)"
    using TimeToCut_trichotomy [OF m2, where ch = ?ch and timer = "Some 9" and evs = "[]"] l
    by simp
  have b: "loop_from (ex_deps 4) (?ch, Some 9) [Recv (ex_msg [1, 5] 7)] = loop_exit (ex_deps 4) None ?ch"
    using TimeToCut_trichotomy [OF m5, where ch = ?ch and timer = "Some 9" and evs = "[]"] l
    by simp
  have c: "loop_from (ex_deps 4) (?ch, Some 9) [Recv (ex_msg [1, 4] 7)]
       = loop_exit (ex_deps 4) None (?ch\<lparr>world := [], trace := trace ?ch @ [Act_Cut]\<rparr>)"
    using TimeToCut_trichotomy [OF m4, where ch = ?ch and timer = "Some 9" and evs = "[]"] l w
    by (simp add: ex_deps_def)
  have e: "lastCutBlock (result_chain (loop_from (ex_deps 4) (?chp, Some 9) [Recv (ex_msg [1, 4] 7)])) = 4"
    using TimeToCut_trichotomy [OF m4, where ch = ?chp and timer = "Some 9" and evs = "[]"] l w
    by (simp add: ex_deps_def)
  show ?thesis
    using m2 m5 m4 a b c e l by simp
qed

subsection \<open>Where the consumer starts\<close>

text \<open>
  C2. A chain driver that \<open>HandleChain\<close> constructs from block metadata holding the
  persisted offset \<open>off\<close> has that offset in its field, and \<open>Start\<close> on it constructs the
  consumer at offset \<open>off + 1\<close> (in \<open>int64\<close>): it calls the consumer constructor exactly once,
  with that offset, when the connect message could be posted, and not at all otherwise.
  When \<open>Start\<close> spawns the loop, the consumer was constructed at \<open>off + 1\<close>. The
  consumer the chain then holds is the one that call of the constructor returned, and the
  collaborators are left as that call left them; when the constructor fails, or the
  connect message cannot be posted, \<open>Start\<close> closes the exit channel, sets \<open>halted\<close> and
  spawns nothing.
\<close>

theorem Start_consumer_offset:
  assumes "getLastOffsetPersisted d metadata = Inr off"
  shows "\<exists>ch ch' spawned.
           HandleChain d w metadata = Inr ch
           \<and> lastOffsetPersisted ch = off
           \<and> Start d ch = Inr (ch', spawned)
           \<and> consFunc_offsets (trace ch')
               = (if fst (producer_Send d (world ch) (partition ch)
                            (Marshal_KafkaMessage d KafkaMessage_Connect)) = None
                  then [off + 1] else [])
           \<and> (spawned \<longrightarrow> consFunc_offsets (trace ch') = [off + 1])
           \<and> (let connect = Marshal_KafkaMessage d KafkaMessage_Connect;
                   (err, w1) = producer_Send d (world ch) (partition ch) connect;
                   (res, w2) = consFunc d w1 (partition ch) (off + 1)
               in if err \<noteq> None
                  then (ch', spawned)
                         = (ch\<lparr>halted := True, exitChan := Closed, world := w1,
                               trace := trace ch @ [Act_Send (partition ch) connect,
                                                    Act_close_exitChan, Act_set_halted]\<rparr>,
                            False)
                  else
                    (case res of
                       Inl e \<Rightarrow>
                         (ch', spawned)
                           = (ch\<lparr>halted := True, exitChan := Closed, world := w2,
                                 trace := trace ch @ [Act_Send (partition ch) connect,
                                                      Act_consFunc (partition ch) (off + 1),
                                                      Act_close_exitChan, Act_set_halted]\<rparr>,
                              False)
                     | Inr consumer' \<Rightarrow>
                         (ch', spawned)
                           = (ch\<lparr>consumer := Some consumer', setupChan := Closed, world := w2,
                                 trace := trace ch @ [Act_Send (partition ch) connect,
                                                      Act_consFunc (partition ch) (off + 1),
                                                      Act_close_setupChan, Act_go_listenForErrors,
                                                      Act_go_loop]\<rparr>,
                              True)))"
proof -
  let ?ch = "newChain d w off"
  let ?connect = "Marshal_KafkaMessage d KafkaMessage_Connect"
  have h: "HandleChain d w metadata = Inr ?ch"
    using assms by (simp add: HandleChain_def)
  obtain err w1 where s: "producer_Send d (world ?ch) (partition ?ch) ?connect = (err, w1)"
    by (cases "producer_Send d (world ?ch) (partition ?ch) ?connect") auto
  obtain res w2 where c: "consFunc d w1 (partition ?ch) (off + 1) = (res, w2)"
    by (cases "consFunc d w1 (partition ?ch) (off + 1)") auto
  have f: "lastOffsetPersisted ?ch = off" "exitChan ?ch = Open" "setupChan ?ch = Open"
    "trace ?ch = [Act_prodFunc]"
    by (simp_all add: newChain_def)
  have 1: "Start d ?ch
        = Inr (?ch\<lparr>halted := True, exitChan := Closed, world := w1,
                   trace := trace ?ch @ [Act_Send (partition ?ch) ?connect,
                                         Act_close_exitChan, Act_set_halted]\<rparr>,
               False)"
    if "err \<noteq> None"
    using that by (simp add: Start_def Start_abort_def act_def Let_def s f)
  have 2: "Start d ?ch
        = Inr (?ch\<lparr>halted := True, exitChan := Closed, world := w2,
                   trace := trace ?ch @ [Act_Send (partition ?ch) ?connect,
                                         Act_consFunc (partition ?ch) (off + 1),
                                         Act_close_exitChan, Act_set_halted]\<rparr>,
               False)"
    if "err = None" "res = Inl e" for e
    using that by (simp add: Start_def Start_abort_def act_def Let_def s c f)
  have 3: "Start d ?ch
        = Inr (?ch\<lparr>consumer := Some consumer', setupChan := Closed, world := w2,
                   trace := trace ?ch @ [Act_Send (partition ?ch) ?connect,
                                         Act_consFunc (partition ?ch) (off + 1),
                                         Act_close_setupChan, Act_go_listenForErrors,
                                         Act_go_loop]\<rparr>,
               True)"
    if "err = None" "res = Inr consumer'" for consumer'
    using that by (simp add: Start_def Start_abort_def act_def Let_def s c f)
  show ?thesis
  proof (cases "err = None")
    case False
    show ?thesis
      using h f(1) False 1 [OF False] by (auto simp: s c f(4))
  next
    case True
    show ?thesis
    proof (cases res)
      case (Inl e)
      show ?thesis
        using h f(1) True Inl 2 [OF True Inl] by (auto simp: s c f(4))
    next
      case (Inr consumer')
      show ?thesis
        using h f(1) True Inr 3 [OF True Inr] by (auto simp: s c f(4))
    qed
  qed
qed

theorem Start_consumer_offset_witness:
  "getLastOffsetPersisted (ex_deps_seek 1) \<lparr>Metadata_Value = Some [2]\<rparr> = Inr 2
   \<and> consFunc_offsets (trace (fst (projr (Start (ex_deps_seek 1)
          (projr (HandleChain (ex_deps_seek 1) [] \<lparr>Metadata_Value = Some [2]\<rparr>)))))) = [3]
   \<and> consumer (fst (projr (Start (ex_deps_seek 1)
          (projr (HandleChain (ex_deps_seek 1) [] \<lparr>Metadata_Value = Some [2]\<rparr>))))) = Some 3
   \<and> world (fst (projr (Start (ex_deps_seek 1)
          (projr (HandleChain (ex_deps_seek 1) [] \<lparr>Metadata_Value = Some [2]\<rparr>)))))
       = [\<lparr>Payload = [3], Signature = []\<rparr>]
   \<and> snd (projr (Start (ex_deps_seek 1)
          (projr (HandleChain (ex_deps_seek 1) [] \<lparr>Metadata_Value = Some [2]\<rparr>))))"
proof -
  let ?d = "ex_deps_seek 1"
  let ?md = "\<lparr>Metadata_Value = Some [2]\<rparr>"
  have h: "getLastOffsetPersisted ?d ?md = Inr 2"
    by (simp add: getLastOffsetPersisted_def ex_deps_seek_def ex_deps_def ex_Unmarshal_KafkaMetadata_def)
  from Start_consumer_offset [OF h, of "[]"] obtain ch ch' spawned where
    a: "HandleChain ?d [] ?md = Inr ch"
    and b: "Start ?d ch = Inr (ch', spawned)"
    and c: "consFunc_offsets (trace ch')
               = (if fst (producer_Send ?d (world ch) (partition ch)
                            (Marshal_KafkaMessage ?d KafkaMessage_Connect)) = None
                  then [2 + 1] else [])"
    and e: "let connect = Marshal_KafkaMessage ?d KafkaMessage_Connect;
                (err, w1) = producer_Send ?d (world ch) (partition ch) connect;
                (res, w2) = consFunc ?d w1 (partition ch) (2 + 1)
            in if err \<noteq> None
               then (ch', spawned)
                      = (ch\<lparr>halted := True, exitChan := Closed, world := w1,
                            trace := trace ch @ [Act_Send (partition ch) connect,
                                                 Act_close_exitChan, Act_set_halted]\<rparr>,
                         False)
               else
                 (case res of
                    Inl e \<Rightarrow>
                      (ch', spawned)
                        = (ch\<lparr>halted := True, exitChan := Closed, world := w2,
                              trace := trace ch @ [Act_Send (partition ch) connect,
                                                   Act_consFunc (partition ch) (2 + 1),
                                                   Act_close_exitChan, Act_set_halted]\<rparr>,
                           False)
                  | Inr consumer' \<Rightarrow>
                      (ch', spawned)
                        = (ch\<lparr>consumer := Some consumer', setupChan := Closed, world := w2,
                              trace := trace ch @ [Act_Send (partition ch) connect,
                                                   Act_consFunc (partition ch) (2 + 1),
                                                   Act_close_setupChan, Act_go_listenForErrors,
                                                   Act_go_loop]\<rparr>,
                           True))"
    by blast
  have w: "world ch = []"
    using a h by (auto simp: HandleChain_def newChain_def ex_deps_seek_def ex_deps_def)
  have s: "producer_Send ?d (world ch) (partition ch) (Marshal_KafkaMessage ?d KafkaMessage_Connect)
             = (None, [])"
    using w by (simp add: ex_deps_seek_def ex_deps_def)
  have k: "consFunc ?d [] (partition ch) (2 + 1) = (Inr 3, [\<lparr>Payload = [3], Signature = []\<rparr>])"
    by (simp add: ex_deps_seek_def ex_deps_def)
  have 1: "consFunc_offsets (trace ch') = [3]"
    using c s by simp
  have 2: "consumer ch' = Some 3" "world ch' = [\<lparr>Payload = [3], Signature = []\<rparr>]" "spawned"
    using e s k by (simp_all add: Let_def)
  show ?thesis
    using h a b 1 2 by simp
qed

subsection \<open>The batch timer\<close>

text \<open>
  C4. The timer can fire only when it is set. When it fires the loop clears it and
  publishes a time-to-cut message for block \<open>lastCutBlock + 1\<close> to the partition, and
  goes on to the next event: it writes no block and does not change \<open>lastCutBlock\<close>.
  Whether the publish fails or not, the loop does not exit and nothing of the chain
  driver changes but the timer (what the producer makes of the call is \<open>world\<close>, and the
  call is put on the trace).
\<close>

theorem timer_fired_publishes:
  "let m = Marshal_KafkaMessage d (KafkaMessage_TimeToCut (lastCutBlock ch + 1));
       ch' = ch\<lparr>world := snd (producer_Send d (world ch) (partition ch) m),
                 trace := trace ch @ [Act_Send (partition ch) m]\<rparr>
   in enabled (ch, Some t) TimerFired
      \<and> \<not> enabled (ch, None) TimerFired
      \<and> loop_body d (ch, Some t) TimerFired = (Continue, ch', None)
      \<and> loop_from d (ch, Some t) (TimerFired # evs) = loop_from d (ch', None) evs
      \<and> written_heights (new_actions ch ch') = []
      \<and> lastCutBlock ch' = lastCutBlock ch"
  by (simp add: Let_def loop_body_def act_def new_actions_def split: prod.splits)

theorem timer_fired_publishes_witness:
  "fst (producer_Send (ex_deps_down 1) (world (ex_running 1)) (partition (ex_running 1))
          (Marshal_KafkaMessage (ex_deps_down 1) (KafkaMessage_TimeToCut (lastCutBlock (ex_running 1) + 1))))
     \<noteq> None
   \<and> loop_from (ex_deps_down 1) (ex_running 1, Some 1000) [TimerFired]
       = Running ((ex_running 1)\<lparr>world := [],
                      trace := trace (ex_running 1)
                        @ [Act_Send \<lparr>Topic = ''testchainid'', Partition = 0\<rparr> [1, 1]]\<rparr>) None"
proof -
  have a: "fst (producer_Send (ex_deps_down 1) (world (ex_running 1)) (partition (ex_running 1))
          (Marshal_KafkaMessage (ex_deps_down 1) (KafkaMessage_TimeToCut (lastCutBlock (ex_running 1) + 1))))
     \<noteq> None"
    by (simp add: ex_deps_down_def ex_deps_def)
  have f: "lastCutBlock (ex_running 1) = 0" "world (ex_running 1) = []"
    "partition (ex_running 1) = \<lparr>Topic = ''testchainid'', Partition = 0\<rparr>"
    by (simp_all add: ex_defs)
  have "loop_from (ex_deps_down 1) (ex_running 1, Some 1000) [TimerFired]
       = Running ((ex_running 1)\<lparr>world := [],
                      trace := trace (ex_running 1)
                        @ [Act_Send \<lparr>Topic = ''testchainid'', Partition = 0\<rparr> [1, 1]]\<rparr>) None"
    using timer_fired_publishes [where d = "ex_deps_down 1" and ch = "ex_running 1" and t = 1000
        and evs = "[]"] f
    by (simp add: Let_def ex_deps_down_def ex_deps_def ex_Marshal_KafkaMessage_def)
  then show ?thesis
    using a by simp
qed

lemma Halt_Closed: "exitChan ch = Closed \<Longrightarrow> Halt between ch = Inr ch"
  by (simp add: Halt_def)

lemma Halt_Open:
  "exitChan ch = Open \<Longrightarrow>
     Halt Inr ch = Inr (ch\<lparr>exitChan := Closed, trace := trace ch @ [Act_close_exitChan]\<rparr>)"
  by (simp add: Halt_def act_def)

lemma Halt_times_Closed: "exitChan ch = Closed \<Longrightarrow> Halt_times n ch = Inr ch"
  by (induction n) (simp_all add: Halt_Closed)

lemma loop_ExitSignal:
  assumes "exitChan ch = Closed"
  shows "loop_from d (ch, t) (ExitSignal # evs) = loop_exit d None ch"
  using assms by (simp add: loop_body_def)

subsection \<open>\<open>Enqueue\<close> and \<open>Halt\<close>\<close>

text \<open>
  C5. \<open>Enqueue\<close> returns false once the halt has been observed, which is \<open>halted\<close>: it
  returns false if \<open>halted\<close> holds on entry, false if the publish fails, and true only if
  \<open>halted\<close> is still false after the publish. \<open>halted\<close> holds in every chain whose loop has
  exited, as it does when the loop takes the exit signal after a \<open>Halt\<close>, and \<open>Enqueue\<close> on
  such a chain returns false.
\<close>

theorem Enqueue_false_when_halted:
  "(halted ch \<longrightarrow> Enqueue d during ch env = (False, ch))
   \<and> (fst (producer_Send d (world ch) (partition ch)
             (Marshal_KafkaMessage d (KafkaMessage_Regular (Marshal_Envelope d env)))) \<noteq> None
        \<longrightarrow> \<not> fst (Enqueue d during ch env))
   \<and> (fst (Enqueue d during ch env)
        \<longrightarrow> \<not> halted ch \<and> \<not> halted (snd (Enqueue d during ch env)))
   \<and> (loop d ch0 evs = Exited ch \<longrightarrow> Enqueue d during ch env = (False, ch))
   \<and> (consumer ch \<noteq> None \<and> haltedChan ch = Open
        \<longrightarrow> (\<exists>ch1 ch2. Halt Inr ch = Inr ch1
               \<and> loop d ch1 (ExitSignal # evs) = Exited ch2
               \<and> Enqueue d during ch2 env = (False, ch2)))"
proof -
  have 1: "halted ch \<longrightarrow> Enqueue d during ch env = (False, ch)"
    by (simp add: Enqueue_def)
  have 2: "fst (producer_Send d (world ch) (partition ch)
             (Marshal_KafkaMessage d (KafkaMessage_Regular (Marshal_Envelope d env)))) \<noteq> None
        \<longrightarrow> \<not> fst (Enqueue d during ch env)"
    by (auto simp: Enqueue_def Let_def split: prod.splits)
  have 3: "fst (Enqueue d during ch env)
        \<longrightarrow> \<not> halted ch \<and> \<not> halted (snd (Enqueue d during ch env))"
    by (auto simp: Enqueue_def Let_def split: prod.splits if_splits)
  have e: "halted c" if "loop d c0 es = Exited c" for c0 c es
  proof (cases "consumer c0")
    case None
    then show ?thesis using that by (simp add: loop_def)
  next
    case (Some x)
    from loop_from_shape [of c0 d None es] obtain ch1 where
      "(\<exists>t1. loop_from d (c0, None) es = Running ch1 t1)
        \<or> (\<exists>raised. loop_from d (c0, None) es = loop_exit d raised ch1)"
      by blast
    moreover have "loop_from d (c0, None) es = Exited c"
      using that Some by (simp add: loop_def)
    ultimately obtain raised where "Exited c = loop_exit d raised ch1"
      by auto
    then show ?thesis
      using halted_loop_exit [of d raised ch1] by (metis result_chain.simps(2))
  qed
  have 4: "loop d ch0 evs = Exited ch \<longrightarrow> Enqueue d during ch env = (False, ch)"
    using e [of ch0 evs ch] by (auto simp: Enqueue_def)
  have 5: "\<exists>ch1 ch2. Halt Inr ch = Inr ch1
               \<and> loop d ch1 (ExitSignal # evs) = Exited ch2
               \<and> Enqueue d during ch2 env = (False, ch2)"
    if c: "consumer ch \<noteq> None" and o: "haltedChan ch = Open"
  proof -
    obtain ch1 where h: "Halt Inr ch = Inr ch1" and f: "exitChan ch1 = Closed"
      "consumer ch1 = consumer ch" "haltedChan ch1 = haltedChan ch"
      by (cases "exitChan ch") (auto simp: Halt_Closed Halt_Open)
    have "loop d ch1 (ExitSignal # evs) = loop_exit d None ch1"
      using c f loop_ExitSignal [of ch1 d None evs] by (auto simp: loop_def)
    then obtain ch2 where l: "loop d ch1 (ExitSignal # evs) = Exited ch2"
      using o f by (simp add: loop_exit_Open Let_def)
    then have "halted ch2" by (rule e)
    then have "Enqueue d during ch2 env = (False, ch2)"
      by (simp add: Enqueue_def)
    then show ?thesis using h l by blast
  qed
  show ?thesis
    using 1 2 3 4 5 by blast
qed


theorem Enqueue_false_when_halted_witness:
  "halted ((ex_running 1)\<lparr>halted := True\<rparr>)
   \<and> \<not> fst (Enqueue (ex_deps 1) id ((ex_running 1)\<lparr>halted := True\<rparr>) \<lparr>Payload = [9], Signature = []\<rparr>)
   \<and> fst (producer_Send (ex_deps_down 1) (world (ex_running 1)) (partition (ex_running 1))
            (Marshal_KafkaMessage (ex_deps_down 1)
               (KafkaMessage_Regular (Marshal_Envelope (ex_deps_down 1) \<lparr>Payload = [9], Signature = []\<rparr>))))
        \<noteq> None
   \<and> \<not> fst (Enqueue (ex_deps_down 1) id (ex_running 1) \<lparr>Payload = [9], Signature = []\<rparr>)
   \<and> fst (Enqueue (ex_deps 1) id (ex_running 1) \<lparr>Payload = [9], Signature = []\<rparr>)
   \<and> \<not> halted (snd (Enqueue (ex_deps 1) id (ex_running 1) \<lparr>Payload = [9], Signature = []\<rparr>))
   \<and> halted (snd (Enqueue (ex_deps 1) (\<lambda>c. c\<lparr>halted := True\<rparr>) (ex_running 1) \<lparr>Payload = [9], Signature = []\<rparr>))
   \<and> \<not> fst (Enqueue (ex_deps 1) (\<lambda>c. c\<lparr>halted := True\<rparr>) (ex_running 1) \<lparr>Payload = [9], Signature = []\<rparr>)
   \<and> loop (ex_deps 1) (ex_halted 1) [ExitSignal]
        = Exited (result_chain (loop (ex_deps 1) (ex_halted 1) [ExitSignal]))
   \<and> \<not> fst (Enqueue (ex_deps 1) id (result_chain (loop (ex_deps 1) (ex_halted 1) [ExitSignal]))
              \<lparr>Payload = [9], Signature = []\<rparr>)
   \<and> consumer (ex_running 1) \<noteq> None \<and> haltedChan (ex_running 1) = Open
   \<and> \<not> fst (Enqueue (ex_deps 1) id
              (result_chain (loop (ex_deps 1) (projr (Halt Inr (ex_running 1))) [ExitSignal]))
              \<lparr>Payload = [9], Signature = []\<rparr>)"
proof -
  let ?e = "\<lparr>Payload = [9], Signature = []\<rparr>"
  let ?x = "result_chain (loop (ex_deps 1) (ex_halted 1) [ExitSignal])"
  have h1: "halted ((ex_running 1)\<lparr>halted := True\<rparr>)"
    by simp
  have c1: "\<not> fst (Enqueue (ex_deps 1) id ((ex_running 1)\<lparr>halted := True\<rparr>) ?e)"
    using Enqueue_false_when_halted [where d = "ex_deps 1" and during = id
        and ch = "(ex_running 1)\<lparr>halted := True\<rparr>" and env = ?e] h1
    by simp
  have h2: "fst (producer_Send (ex_deps_down 1) (world (ex_running 1)) (partition (ex_running 1))
            (Marshal_KafkaMessage (ex_deps_down 1)
               (KafkaMessage_Regular (Marshal_Envelope (ex_deps_down 1) ?e)))) \<noteq> None"
    by (simp add: ex_deps_down_def ex_deps_def)
  have c2: "\<not> fst (Enqueue (ex_deps_down 1) id (ex_running 1) ?e)"
    using Enqueue_false_when_halted [where d = "ex_deps_down 1" and during = id
        and ch = "ex_running 1" and env = ?e] h2
    by blast
  have h3: "fst (Enqueue (ex_deps 1) id (ex_running 1) ?e)"
    by (simp add: ex_defs)
  have c3: "\<not> halted (snd (Enqueue (ex_deps 1) id (ex_running 1) ?e))"
    using Enqueue_false_when_halted [where d = "ex_deps 1" and during = id
        and ch = "ex_running 1" and env = ?e] h3
    by blast
  have h3': "halted (snd (Enqueue (ex_deps 1) (\<lambda>c. c\<lparr>halted := True\<rparr>) (ex_running 1) ?e))"
    by (simp add: ex_defs)
  have c3': "\<not> fst (Enqueue (ex_deps 1) (\<lambda>c. c\<lparr>halted := True\<rparr>) (ex_running 1) ?e)"
    using Enqueue_false_when_halted [where d = "ex_deps 1" and during = "\<lambda>c. c\<lparr>halted := True\<rparr>"
        and ch = "ex_running 1" and env = ?e] h3'
    by blast
  have h4: "loop (ex_deps 1) (ex_halted 1) [ExitSignal] = Exited ?x"
    by (simp add: ex_defs)
  have c4: "\<not> fst (Enqueue (ex_deps 1) id ?x ?e)"
    using Enqueue_false_when_halted [where d = "ex_deps 1" and during = id
        and ch = ?x and ch0 = "ex_halted 1" and evs = "[ExitSignal]" and env = ?e] h4
    by simp
  have h5: "consumer (ex_running 1) \<noteq> None" "haltedChan (ex_running 1) = Open"
    by (simp_all add: ex_defs)
  from Enqueue_false_when_halted [where d = "ex_deps 1" and during = id
        and ch = "ex_running 1" and evs = "[]" and env = ?e] h5
  obtain ch1 ch2 where "Halt Inr (ex_running 1) = Inr ch1"
    "loop (ex_deps 1) ch1 [ExitSignal] = Exited ch2"
    "Enqueue (ex_deps 1) id ch2 ?e = (False, ch2)"
    by blast
  then have c5: "\<not> fst (Enqueue (ex_deps 1) id
              (result_chain (loop (ex_deps 1) (projr (Halt Inr (ex_running 1))) [ExitSignal])) ?e)"
    by simp
  show ?thesis
    using h1 c1 h2 c2 h3 c3 h3' c3' h4 c4 h5 c5 by blast
qed

text \<open>
  C8, as amended. \<open>Halt\<close> is idempotent for calls that do not overlap: any number of calls,
  one after the other, never panics and leaves the chain as one call does, with the exit
  channel closed, and closed by the first call only if it was open. The loop can then take
  the exit signal, and exits when it does.
\<close>

theorem Halt_idempotent_sequential:
  "\<exists>ch'. Halt Inr ch = Inr ch'
      \<and> exitChan ch' = Closed
      \<and> new_actions ch ch' = (if exitChan ch = Open then [Act_close_exitChan] else [])
      \<and> Halt_times n ch = Inr (if n = 0 then ch else ch')
      \<and> Halt_times n ch' = Inr ch'
      \<and> enabled (ch', t) ExitSignal
      \<and> loop_from d (ch', t) (ExitSignal # evs) = loop_exit d None ch'"
proof (cases "exitChan ch")
  case Closed
  then show ?thesis
    using loop_ExitSignal [of ch d t evs]
    by (simp add: Halt_Closed Halt_times_Closed new_actions_def)
next
  case Open
  let ?ch' = "ch\<lparr>exitChan := Closed, trace := trace ch @ [Act_close_exitChan]\<rparr>"
  have c: "exitChan ?ch' = Closed" by simp
  have h: "Halt Inr ch = Inr ?ch'"
    using Open by (rule Halt_Open)
  have "Halt_times n ch = Inr (if n = 0 then ch else ?ch')"
    by (cases n) (simp_all add: h Halt_times_Closed [OF c])
  then show ?thesis
    using h Open Halt_times_Closed [OF c, of n] loop_ExitSignal [OF c, of d t evs]
    by (simp add: new_actions_def)
qed

theorem Halt_idempotent_sequential_witness:
  "Halt_times 3 (ex_running 1) = Inr (ex_halted 1)
   \<and> new_actions (ex_running 1) (ex_halted 1) = [Act_close_exitChan]
   \<and> Halt_times 2 (ex_halted 1) = Inr (ex_halted 1)"
proof -
  have o: "exitChan (ex_running 1) = Open"
    by (simp add: ex_defs)
  from Halt_idempotent_sequential [where ch = "ex_running 1" and n = 3]
  obtain ch' where a: "Halt Inr (ex_running 1) = Inr ch'"
    and b: "new_actions (ex_running 1) ch' = (if exitChan (ex_running 1) = Open then [Act_close_exitChan] else [])"
    and c: "Halt_times 3 (ex_running 1) = Inr (if (3::nat) = 0 then ex_running 1 else ch')"
    by blast
  from Halt_idempotent_sequential [where ch = "ex_running 1" and n = 2]
  obtain ch'' where a': "Halt Inr (ex_running 1) = Inr ch''"
    and d: "Halt_times 2 ch'' = Inr ch''"
    by blast
  have "ch' = ex_halted 1" "ch'' = ex_halted 1"
    using a a' by (simp_all add: ex_halted_def)
  then show ?thesis
    using b c d o by simp
qed

text \<open>
  As C8 is stated, calls from any number of callers never panic. A call that runs after
  another call has found the channel open (line 207) and before that call closes it
  (line 215) closes the channel first, and the close of the overlapped call panics.
\<close>

theorem Halt_overlapping_counterexample:
  "Halt (Halt Inr) (ex_running 1) = Inl CloseOfClosedChannel"
  by (simp add: ex_defs)

end
